theory Spec2Isabelle
  imports Complex_Main "HOL-Library.Sublist" "HOL-Library.Word"
begin

section \<open>Python strings\<close>

text \<open>
  A Python \<open>str\<close> is a sequence of Unicode code points and \<open>len\<close> counts code points,
  so a string is modelled as a list of code points (natural numbers). ASCII literals of
  the source are written \<open>u ''...''\<close>.
\<close>

type_synonym pystr = "nat list"

definition u :: "string \<Rightarrow> pystr" where
  "u s = map of_char s"

definition nl :: pystr where
  "nl = [10]"

text \<open>
  \<open>str.isspace\<close> of a single character, which is also the class \<open>\s\<close> of \<open>re\<close> on
  \<open>str\<close> patterns: TAB..CR, FS..US, space, NEL, NBSP and the Unicode space separators.
\<close>

definition is_space :: "nat \<Rightarrow> bool" where
  "is_space c \<longleftrightarrow>
     (9 \<le> c \<and> c \<le> 13) \<or> (28 \<le> c \<and> c \<le> 32) \<or> c = 133 \<or> c = 160 \<or> c = 5760
     \<or> (8192 \<le> c \<and> c \<le> 8202) \<or> c = 8232 \<or> c = 8233 \<or> c = 8239 \<or> c = 8287
     \<or> c = 12288"

text \<open>\<open>s.strip()\<close>: leading and trailing whitespace removed.\<close>

definition strip :: "pystr \<Rightarrow> pystr" where
  "strip s = rev (dropWhile is_space (rev (dropWhile is_space s)))"

text \<open>\<open>re.sub(r"\s+", " ", s)\<close>: every maximal run of whitespace becomes one space.\<close>

function collapse_ws :: "pystr \<Rightarrow> pystr" where
  "collapse_ws [] = []"
| "collapse_ws (c # cs) =
     (if is_space c then 32 # collapse_ws (dropWhile is_space cs) else c # collapse_ws cs)"
  by pat_completeness auto
termination
  by (relation "measure length") (auto simp: length_dropWhile_le less_Suc_eq_le)

text \<open>\<open>str(i)\<close> for a non-negative integer: its decimal digits.\<close>

fun str_nat :: "nat \<Rightarrow> pystr" where
  "str_nat n = (if n < 10 then [48 + n] else str_nat (n div 10) @ [48 + n mod 10])"

declare str_nat.simps [simp del]

text \<open>\<open>sep.join(parts)\<close>.\<close>

fun join :: "pystr \<Rightarrow> pystr list \<Rightarrow> pystr" where
  "join sep [] = []"
| "join sep [x] = x"
| "join sep (x # y # ys) = x @ sep @ join sep (y # ys)"

text \<open>
  \<open>s[start:]\<close> for an integer \<open>start\<close>: a negative start counts from the end, and
  both ends are clamped to the string.
\<close>

definition slice_from :: "int \<Rightarrow> 'a list \<Rightarrow> 'a list" where
  "slice_from start xs =
     (let n = int (length xs);
          s = (if start < 0 then max (start + n) 0 else min start n)
      in drop (nat s) xs)"

section \<open>Schemas (\<open>app/models/schemas.py\<close>)\<close>

datatype message_role = USER | ASSISTANT

fun role_value :: "message_role \<Rightarrow> pystr" where
  "role_value USER = u ''user''"
| "role_value ASSISTANT = u ''assistant''"

record chat_message =
  role :: message_role
  msg_content :: pystr

record source_chunk =
  document_id :: pystr
  document_name :: pystr
  chunk_index :: int
  content :: pystr
  score :: real

section \<open>Exceptions\<close>

text \<open>
  The exceptions the services can raise. \<open>ValueError msg\<close> is a plain \<open>ValueError\<close>
  with its message; \<open>UnicodeDecodeError\<close> is raised by \<open>bytes.decode\<close>;
  \<open>ValidationError\<close> by a pydantic model whose field constraint fails; \<open>OtherError\<close>
  stands for any exception raised by an external provider (the embedding model, the
  vector store, the PDF reader).
\<close>

datatype exn =
    ValueError pystr
  | UnicodeDecodeError
  | ValidationError
  | OtherError pystr

section \<open>Generation service (\<open>app/services/generation.py\<close>)\<close>

subsection \<open>\<open>build_rag_prompt\<close>\<close>

text \<open>A prompt message is the dict \<open>{"role": r, "content": c}\<close>, here the pair \<open>(r, c)\<close>.\<close>

type_synonym message = "pystr \<times> pystr"

definition system_instructions :: pystr where
  "system_instructions =
     u ''You are a helpful assistant that answers questions based on the provided document excerpts.''
     @ nl @ nl @ u ''Guidelines:''
     @ nl @ u ''- Answer questions using ONLY the information from the provided context''
     @ nl @ u ''- If the context doesn't contain enough information, say so clearly''
     @ nl @ u ''- Be concise but thorough''
     @ nl @ u ''- When relevant, mention which document(s) the information comes from''
     @ nl @ u ''- If asked about something not in the documents, politely explain you can only answer based on the uploaded documents''"

definition no_documents_note :: pystr where
  "no_documents_note =
     nl @ nl @ u ''Note: No documents have been uploaded yet. Please ask the user to upload documents first.''"

text \<open>The f-string \<open>[Excerpt {i} from '{source.document_name}']:\n{source.content}\<close>.\<close>

definition excerpt :: "nat \<Rightarrow> source_chunk \<Rightarrow> pystr" where
  "excerpt i source =
     u ''[Excerpt '' @ str_nat i @ u '' from '' @ [39] @ document_name source @ [39] @ u '']:''
     @ nl @ content source"

text \<open>The loop \<open>for i, source in enumerate(sources, 1)\<close>, started at \<open>i\<close>.\<close>

fun context_parts :: "nat \<Rightarrow> source_chunk list \<Rightarrow> pystr list" where
  "context_parts i [] = []"
| "context_parts i (source # sources) = excerpt i source # context_parts (Suc i) sources"

definition context_rule :: pystr where
  "context_rule = nl @ nl @ u ''---'' @ nl @ nl"

definition system_content :: "source_chunk list \<Rightarrow> pystr" where
  "system_content sources =
     (if sources \<noteq> []
      then system_instructions @ (nl @ nl @ u ''## Document Context:'' @ nl @ nl
             @ join context_rule (context_parts 1 sources))
      else system_instructions @ no_documents_note)"

definition history_message :: "chat_message \<Rightarrow> message" where
  "history_message msg = (role_value (role msg), msg_content msg)"

text \<open>
  \<open>history\<close> is \<open>None\<close> or a list; \<open>if history:\<close> skips both \<open>None\<close> and the empty list,
  and \<open>history[-6:]\<close> keeps the last six entries.
\<close>

definition history_or_empty :: "chat_message list option \<Rightarrow> chat_message list" where
  "history_or_empty history = (case history of None \<Rightarrow> [] | Some h \<Rightarrow> h)"

definition build_rag_prompt ::
  "pystr \<Rightarrow> source_chunk list \<Rightarrow> chat_message list option \<Rightarrow> message list" where
  "build_rag_prompt question sources history =
     (let messages = [(u ''system'', system_content sources)];
          messages = (case history of
                        None \<Rightarrow> messages
                      | Some h \<Rightarrow> if h \<noteq> [] then messages @ map history_message (slice_from (- 6) h)
                                  else messages)
      in messages @ [(u ''user'', question)])"

subsection \<open>\<open>generate_stream\<close> and the SSE generator of \<open>app/api/chat.py\<close>\<close>

text \<open>
  The payload of an event dict \<open>{"type": t, "data": d}\<close>: the dumped source list, a
  string, or \<open>None\<close>.
\<close>

datatype payload = SourcesData "source_chunk list" | StrData pystr | NoData

type_synonym event = "pystr \<times> payload"

text \<open>
  One item of the model's stream: \<open>chunk.data.choices\<close>, each choice reduced to its
  \<open>delta.content\<close>, which is \<open>None\<close> or a string.
\<close>

type_synonym completion_chunk = "pystr option list"

text \<open>
  The model call \<open>self.mistral.chat.stream(...)\<close> iterated to its end: the items it
  delivers, and then either the normal end of the iteration or an exception with its
  \<open>str(e)\<close>. A call that fails at once delivers no item. The stream is taken to be
  finite.
\<close>

datatype stream_end = Finished | Raised pystr

type_synonym model_stream = "completion_chunk list \<times> stream_end"

text \<open>
  The body of \<open>for chunk in stream\<close>: an item yields a content event when it has a
  choice and the first choice's delta content is truthy (neither \<open>None\<close> nor empty).
\<close>

fun stream_events :: "completion_chunk list \<Rightarrow> event list" where
  "stream_events [] = []"
| "stream_events (chunk # rest) =
     (case chunk of
        Some c # _ \<Rightarrow> if c \<noteq> [] then (u ''content'', StrData c) # stream_events rest
                        else stream_events rest
      | _ \<Rightarrow> stream_events rest)"

text \<open>
  An asynchronous generator run to its end: the events it yielded, and how it ended.
  \<open>chat_stream\<close> is the model client.
\<close>

definition generate_stream ::
  "(message list \<Rightarrow> model_stream) \<Rightarrow> pystr \<Rightarrow> source_chunk list \<Rightarrow> chat_message list option
     \<Rightarrow> event list \<times> stream_end" where
  "generate_stream chat_stream question sources history =
     (let messages = build_rag_prompt question sources history;
          first = (u ''sources'', SourcesData sources);
          (chunks, ending) = chat_stream messages
      in case ending of
           Finished \<Rightarrow> (first # stream_events chunks @ [(u ''done'', NoData)], Finished)
         | Raised e \<Rightarrow> (first # stream_events chunks, Raised e))"

text \<open>
  \<open>event_generator\<close> forwards every event and turns an exception of the generator into
  one error event. The events are given before \<open>json.dumps\<close> and the \<open>data:\<close> framing,
  which change no event.
\<close>

definition event_generator ::
  "(message list \<Rightarrow> model_stream) \<Rightarrow> pystr \<Rightarrow> source_chunk list \<Rightarrow> chat_message list option
     \<Rightarrow> event list" where
  "event_generator chat_stream question sources history =
     (case generate_stream chat_stream question sources history of
        (events, Finished) \<Rightarrow> events
      | (events, Raised e) \<Rightarrow> events @ [(u ''error'', StrData e)])"

section \<open>Python floats\<close>


text \<open>
  The nearest integer, a tie going to the even neighbour.
\<close>

definition round_half_even :: "real \<Rightarrow> int" where
  "round_half_even x =
     (let f = \<lfloor>x\<rfloor>; r = x - of_int f
      in if r < 1 / 2 then f else if 1 / 2 < r then f + 1 else if even f then f else f + 1)"








section \<open>Retrieval service (\<open>app/services/retrieval.py\<close>)\<close>

text \<open>
  The metadata dict stored with every chunk, and one row of a query result (the
  parallel lists \<open>ids\<close>, \<open>metadatas\<close>, \<open>documents\<close>, \<open>distances\<close> of the
  store, read at one index). A distance is a Python float.
\<close>

record chunk_metadata =
  meta_document_id :: pystr
  meta_document_name :: pystr
  meta_chunk_index :: int
  meta_total_chunks :: int








section \<open>Ingestion service (\<open>app/services/ingestion.py\<close>)\<close>

subsection \<open>Settings (\<open>app/core/config.py\<close>)\<close>

text \<open>The two settings the chunker reads; both are unconstrained Python integers.\<close>

record settings =
  chunk_size :: int
  chunk_overlap :: int

definition default_settings :: settings where
  "default_settings = \<lparr>chunk_size = 500, chunk_overlap = 50\<rparr>"

subsection \<open>\<open>chunk_text\<close>\<close>

text \<open>
  \<open>re.split(r"\n\n+", s)\<close>: the pieces of \<open>s\<close> between the maximal runs of two or more
  newlines. The result is never empty.
\<close>

function split_paragraphs :: "pystr \<Rightarrow> pystr list" where
  "split_paragraphs [] = [[]]"
| "split_paragraphs [c] = [[c]]"
| "split_paragraphs (c # d # cs) =
     (if c = 10 \<and> d = 10 then [] # split_paragraphs (dropWhile (\<lambda>x. x = 10) cs)
      else (case split_paragraphs (d # cs) of
              [] \<Rightarrow> [[c]]
            | p # ps \<Rightarrow> (c # p) # ps))"
  by pat_completeness auto
termination
  by (relation "measure length") (auto simp: length_dropWhile_le less_Suc_eq_le le_SucI)

text \<open>
  \<open>re.split(r"(?<=[.!?])\s+", s)\<close>: the pieces of \<open>s\<close> between the whitespace runs that
  follow a full stop, an exclamation mark or a question mark.
\<close>

definition is_sentence_end :: "nat \<Rightarrow> bool" where
  "is_sentence_end c \<longleftrightarrow> c = 46 \<or> c = 33 \<or> c = 63"

function split_sentences :: "pystr \<Rightarrow> pystr list" where
  "split_sentences [] = [[]]"
| "split_sentences [c] = [[c]]"
| "split_sentences (c # d # cs) =
     (if is_sentence_end c \<and> is_space d then [c] # split_sentences (dropWhile is_space cs)
      else (case split_sentences (d # cs) of
              [] \<Rightarrow> [[c]]
            | p # ps \<Rightarrow> (c # p) # ps))"
  by pat_completeness auto
termination
  by (relation "measure length") (auto simp: length_dropWhile_le less_Suc_eq_le le_SucI)

text \<open>
  The state of the loop: the list \<open>chunks\<close> and the buffer \<open>current_chunk\<close>. The field
  \<open>flush_log\<close> is a history variable that the source does not have: every flush appends
  the buffer it found and the buffer it left. It is never read by the chunker.
\<close>

record chunker =
  chunks :: "pystr list"
  current_chunk :: pystr
  flush_log :: "(pystr \<times> pystr) list"

text \<open>
  The reseeded buffer, \<open>current_chunk[-overlap_chars:] if overlap_chars else ""\<close>.
\<close>

definition reseed :: "int \<Rightarrow> pystr \<Rightarrow> pystr" where
  "reseed overlap_chars buffer =
     (if overlap_chars \<noteq> 0 then slice_from (- overlap_chars) buffer else [])"

text \<open>
  The two statements of a flush (lines 88 to 90, and again 95 to 96):
  \<open>chunks.append(current_chunk.strip())\<close> and the reseeding of \<open>current_chunk\<close>. The
  history variable then records the buffer as it was before the two statements and as
  it is after them.
\<close>

definition flush :: "int \<Rightarrow> chunker \<Rightarrow> chunker" where
  "flush overlap_chars st =
     (let before = current_chunk st;
          st = st\<lparr>chunks := chunks st @ [strip (current_chunk st)]\<rparr>;
          st = st\<lparr>current_chunk := reseed overlap_chars (current_chunk st)\<rparr>
      in st\<lparr>flush_log := flush_log st @ [(before, current_chunk st)]\<rparr>)"

text \<open>The body of \<open>for sentence in sentences\<close>.\<close>

definition add_sentence :: "int \<Rightarrow> int \<Rightarrow> chunker \<Rightarrow> pystr \<Rightarrow> chunker" where
  "add_sentence target_chars overlap_chars st sentence =
     (let st = (if target_chars < int (length (current_chunk st)) + int (length sentence)
                   \<and> current_chunk st \<noteq> []
                then flush overlap_chars st else st)
      in st\<lparr>current_chunk := current_chunk st @ [32] @ sentence\<rparr>)"

text \<open>The body of \<open>for paragraph in paragraphs\<close>.\<close>

definition add_paragraph :: "int \<Rightarrow> int \<Rightarrow> chunker \<Rightarrow> pystr \<Rightarrow> chunker" where
  "add_paragraph target_chars overlap_chars st paragraph0 =
     (let paragraph = strip paragraph0
      in if paragraph = [] then st
         else if target_chars < int (length paragraph)
         then foldl (add_sentence target_chars overlap_chars) st (split_sentences paragraph)
         else (let st = (if target_chars < int (length (current_chunk st)) + int (length paragraph)
                            \<and> current_chunk st \<noteq> []
                         then flush overlap_chars st else st)
               in st\<lparr>current_chunk := current_chunk st @ [10, 10] @ paragraph\<rparr>))"

text \<open>The first statement, \<open>text = re.sub(r"\s+", " ", text).strip()\<close>.\<close>

definition clean_text :: "pystr \<Rightarrow> pystr" where
  "clean_text text = strip (collapse_ws text)"

text \<open>
  The paragraph split and the loop, run on the cleaned text (the variable \<open>text\<close> was
  reassigned by the first statement).
\<close>

definition chunk_loop :: "settings \<Rightarrow> pystr \<Rightarrow> chunker" where
  "chunk_loop settings text =
     (let paragraphs = split_paragraphs text;
          target_chars = chunk_size settings * 4;
          overlap_chars = chunk_overlap settings * 4
      in foldl (add_paragraph target_chars overlap_chars)
           \<lparr>chunks = [], current_chunk = [], flush_log = []\<rparr> paragraphs)"

definition chunk_text :: "settings \<Rightarrow> pystr \<Rightarrow> pystr list" where
  "chunk_text settings text0 =
     (let text = clean_text text0
      in if text = [] then []
         else (let st = chunk_loop settings text
               in if strip (current_chunk st) \<noteq> [] then chunks st @ [strip (current_chunk st)]
                  else chunks st))"

text \<open>The flushes performed by a run of \<open>chunk_text\<close>, in order.\<close>

definition chunk_flushes :: "settings \<Rightarrow> pystr \<Rightarrow> (pystr \<times> pystr) list" where
  "chunk_flushes settings text0 =
     (let text = clean_text text0
      in if text = [] then [] else flush_log (chunk_loop settings text))"




subsection \<open>Notions used in the proofs about the chunker\<close>

text \<open>
  The invariant of the loop that ties the history variable to the state: the chunks
  emitted so far are the trimmed buffers of the flushes, in order, and every logged
  flush reseeded the buffer from the non-empty buffer it flushed.
\<close>

definition flush_inv :: "int \<Rightarrow> chunker \<Rightarrow> bool" where
  "flush_inv overlap_chars st \<longleftrightarrow>
     chunks st = map (\<lambda>e. strip (fst e)) (flush_log st)
     \<and> (\<forall>e \<in> set (flush_log st). snd e = reseed overlap_chars (fst e) \<and> fst e \<noteq> [])"

text \<open>
  The second invariant: every logged flush left a buffer that the next flushed buffer,
  and after the last flush the buffer of the state, starts with.
\<close>

definition link_inv :: "chunker \<Rightarrow> bool" where
  "link_inv st \<longleftrightarrow>
     (\<forall>i. Suc i < length (flush_log st)
        \<longrightarrow> prefix (snd (flush_log st ! i)) (fst (flush_log st ! Suc i)))
     \<and> (flush_log st \<noteq> [] \<longrightarrow> prefix (snd (last (flush_log st))) (current_chunk st))"

text \<open>Trailing whitespace removed (\<open>s.rstrip()\<close>).\<close>

definition rtrim :: "pystr \<Rightarrow> pystr" where
  "rtrim s = rev (dropWhile is_space (rev s))"

subsection \<open>File names (\<open>pathlib\<close>) and text extraction\<close>

text \<open>\<open>s.split(sep)\<close> for a separator of one character.\<close>

fun split_on :: "nat \<Rightarrow> pystr \<Rightarrow> pystr list" where
  "split_on sep [] = [[]]"
| "split_on sep (c # cs) =
     (if c = sep then [] # split_on sep cs
      else (case split_on sep cs of
              [] \<Rightarrow> [[c]]
            | p # ps \<Rightarrow> (c # p) # ps))"

text \<open>
  \<open>Path(filename).name\<close> on a POSIX system: the last component of the path, where
  empty components and \<open>.\<close> components do not count; empty when there is none.
\<close>

definition path_name :: "pystr \<Rightarrow> pystr" where
  "path_name filename =
     (case filter (\<lambda>p. p \<noteq> [] \<and> p \<noteq> [46]) (split_on 47 filename) of
        [] \<Rightarrow> []
      | p # ps \<Rightarrow> last (p # ps))"

text \<open>\<open>s.rfind(c)\<close> for one character: the last index of \<open>c\<close>, or \<open>None\<close> for \<open>-1\<close>.\<close>

definition rfind :: "nat \<Rightarrow> pystr \<Rightarrow> nat option" where
  "rfind c s =
     (if c \<in> set s then Some (length s - 1 - length (takeWhile (\<lambda>x. x \<noteq> c) (rev s)))
      else None)"

text \<open>
  \<open>Path(filename).suffix\<close> and \<open>.stem\<close>: the name is cut at its last dot, unless that
  dot is the first or the last character of the name.
\<close>

definition path_suffix :: "pystr \<Rightarrow> pystr" where
  "path_suffix filename =
     (let name = path_name filename
      in case rfind 46 name of
           None \<Rightarrow> []
         | Some i \<Rightarrow> if 0 < i \<and> i + 1 < length name then drop i name else [])"

definition path_stem :: "pystr \<Rightarrow> pystr" where
  "path_stem filename =
     (let name = path_name filename
      in case rfind 46 name of
           None \<Rightarrow> name
         | Some i \<Rightarrow> if 0 < i \<and> i + 1 < length name then take i name else name)"

text \<open>
  \<open>s.lower()\<close> on the ASCII letters; other characters are left as they are. The
  result is only compared with \<open>.pdf\<close> and \<open>.txt\<close>, and no character outside ASCII
  has one of their letters as its lower case.
\<close>

definition lower :: "pystr \<Rightarrow> pystr" where
  "lower s = map (\<lambda>c. if 65 \<le> c \<and> c \<le> 90 then c + 32 else c) s"

text \<open>
  \<open>content.decode("utf-8")\<close> with strict error handling: \<open>None\<close> stands for
  \<open>UnicodeDecodeError\<close>. Overlong forms, surrogates and code points above
  \<open>0x10FFFF\<close> are rejected, as are stray and missing continuation bytes.
\<close>

type_synonym byte = "8 word"

definition is_cont :: "byte \<Rightarrow> bool" where
  "is_cont b \<longleftrightarrow> 0x80 \<le> b \<and> b \<le> 0xBF"

definition cont_bits :: "byte \<Rightarrow> nat" where
  "cont_bits b = unat b - 128"

fun utf8_decode :: "byte list \<Rightarrow> pystr option" where
  "utf8_decode [] = Some []"
| "utf8_decode (b # bs) =
     (if b < 0x80 then map_option ((#) (unat b)) (utf8_decode bs)
      else if 0xC2 \<le> b \<and> b \<le> 0xDF then
        (case bs of
           b1 # rest \<Rightarrow>
             if is_cont b1
             then map_option ((#) ((unat b - 192) * 64 + cont_bits b1)) (utf8_decode rest)
             else None
         | _ \<Rightarrow> None)
      else if 0xE0 \<le> b \<and> b \<le> 0xEF then
        (case bs of
           b1 # b2 # rest \<Rightarrow>
             if is_cont b1 \<and> is_cont b2 \<and> (b = 0xE0 \<longrightarrow> 0xA0 \<le> b1) \<and> (b = 0xED \<longrightarrow> b1 \<le> 0x9F)
             then map_option ((#) ((unat b - 224) * 4096 + cont_bits b1 * 64 + cont_bits b2))
                    (utf8_decode rest)
             else None
         | _ \<Rightarrow> None)
      else if 0xF0 \<le> b \<and> b \<le> 0xF4 then
        (case bs of
           b1 # b2 # b3 # rest \<Rightarrow>
             if is_cont b1 \<and> is_cont b2 \<and> is_cont b3
                \<and> (b = 0xF0 \<longrightarrow> 0x90 \<le> b1) \<and> (b = 0xF4 \<longrightarrow> b1 \<le> 0x8F)
             then map_option
                    ((#) ((unat b - 240) * 262144 + cont_bits b1 * 4096 + cont_bits b2 * 64
                          + cont_bits b3))
                    (utf8_decode rest)
             else None
         | _ \<Rightarrow> None)
      else None)"

text \<open>
  The three errors of the ingestion taxonomy, each a \<open>ValueError\<close> with the message
  of the source.
\<close>

definition unsupported_file_type :: "pystr \<Rightarrow> exn" where
  "unsupported_file_type file_ext = ValueError (u ''Unsupported file type: '' @ file_ext)"

definition empty_content :: exn where
  "empty_content = ValueError (u ''Document contains no extractable text'')"

definition chunking_failed :: exn where
  "chunking_failed = ValueError (u ''Document could not be chunked'')"

text \<open>
  \<open>_extract_txt\<close>: the file is binary, so its content is decoded. \<open>_extract_pdf\<close>:
  \<open>pdf_pages\<close> stands for \<open>PdfReader\<close>, giving the extracted text of every page or
  the reader's exception; pages without text are skipped.
\<close>

definition extract_txt :: "byte list \<Rightarrow> exn + pystr" where
  "extract_txt file =
     (case utf8_decode file of None \<Rightarrow> Inl UnicodeDecodeError | Some decoded \<Rightarrow> Inr decoded)"

definition extract_pdf :: "(byte list \<Rightarrow> exn + pystr list) \<Rightarrow> byte list \<Rightarrow> exn + pystr" where
  "extract_pdf pdf_pages file =
     (case pdf_pages file of
        Inl e \<Rightarrow> Inl e
      | Inr pages \<Rightarrow> Inr (join [10, 10] (filter (\<lambda>page_text. page_text \<noteq> []) pages)))"

definition extract_text ::
  "(byte list \<Rightarrow> exn + pystr list) \<Rightarrow> byte list \<Rightarrow> pystr \<Rightarrow> exn + pystr" where
  "extract_text pdf_pages file filename =
     (let file_ext = lower (path_suffix filename)
      in if file_ext = u ''.pdf'' then extract_pdf pdf_pages file
         else if file_ext = u ''.txt'' then extract_txt file
         else Inl (unsupported_file_type file_ext))"

subsection \<open>\<open>generate_document_id\<close>\<close>

text \<open>\<open>re.sub(r"[^a-zA-Z0-9]", "_", s)\<close>.\<close>

definition is_alnum_ascii :: "nat \<Rightarrow> bool" where
  "is_alnum_ascii c \<longleftrightarrow> (97 \<le> c \<and> c \<le> 122) \<or> (65 \<le> c \<and> c \<le> 90) \<or> (48 \<le> c \<and> c \<le> 57)"

definition sanitize :: "pystr \<Rightarrow> pystr" where
  "sanitize s = map (\<lambda>c. if is_alnum_ascii c then c else 95) s"

text \<open>
  The two parts of the id. \<open>md5_hexdigest\<close> stands for
  \<open>hashlib.md5(content.encode()).hexdigest()\<close>, a function of the content (the
  parameter \<open>content\<close> of the source is named \<open>contents\<close> here).
\<close>

definition safe_filename :: "pystr \<Rightarrow> pystr" where
  "safe_filename filename = take 20 (sanitize (path_stem filename))"

definition content_hash :: "(pystr \<Rightarrow> pystr) \<Rightarrow> pystr \<Rightarrow> pystr" where
  "content_hash md5_hexdigest contents = take 8 (md5_hexdigest contents)"

definition generate_document_id :: "(pystr \<Rightarrow> pystr) \<Rightarrow> pystr \<Rightarrow> pystr \<Rightarrow> pystr" where
  "generate_document_id md5_hexdigest filename contents =
     safe_filename filename @ u ''_'' @ content_hash md5_hexdigest contents"

subsection \<open>The vector store and the upload directory\<close>

text \<open>
  One record of the Chroma collection: its id, embedding, document text and metadata.
  The collection is the list of its records; Chroma keeps the ids distinct.
\<close>

type_synonym embedding = "real list"

record entry =
  entry_id :: pystr
  entry_embedding :: embedding
  entry_document :: pystr
  entry_metadata :: chunk_metadata

text \<open>\<open>collection.get(where={"document_id": doc_id})["ids"]\<close>.\<close>

definition collection_get_ids :: "pystr \<Rightarrow> entry list \<Rightarrow> pystr list" where
  "collection_get_ids doc_id coll =
     map entry_id (filter (\<lambda>e. meta_document_id (entry_metadata e) = doc_id) coll)"

text \<open>\<open>collection.delete(ids=ids)\<close>.\<close>

definition collection_delete :: "pystr list \<Rightarrow> entry list \<Rightarrow> entry list" where
  "collection_delete ids coll = filter (\<lambda>e. entry_id e \<notin> set ids) coll"

text \<open>
  \<open>collection.add(ids, embeddings, documents, metadatas)\<close>: the four lists must have
  one length and the ids of the batch must differ from each other, otherwise the call
  raises; a record whose id is already in the collection is skipped, the others are
  appended.
\<close>

definition new_entries ::
  "pystr list \<Rightarrow> embedding list \<Rightarrow> pystr list \<Rightarrow> chunk_metadata list \<Rightarrow> entry list" where
  "new_entries ids embeddings documents metadatas =
     map (\<lambda>i. \<lparr>entry_id = ids ! i, entry_embedding = embeddings ! i,
                entry_document = documents ! i, entry_metadata = metadatas ! i\<rparr>)
       [0..<length ids]"

definition collection_add ::
  "pystr list \<Rightarrow> embedding list \<Rightarrow> pystr list \<Rightarrow> chunk_metadata list \<Rightarrow> entry list
     \<Rightarrow> exn + entry list" where
  "collection_add ids embeddings documents metadatas coll =
     (if length embeddings \<noteq> length ids \<or> length documents \<noteq> length ids
         \<or> length metadatas \<noteq> length ids
      then Inl (ValueError (u ''Unequal lengths''))
      else if \<not> distinct ids then Inl (OtherError (u ''DuplicateIDError''))
      else Inr (coll @ filter (\<lambda>e. entry_id e \<notin> entry_id ` set coll)
                         (new_entries ids embeddings documents metadatas)))"

text \<open>\<open>DocumentInfo\<close>; the time stamp is kept abstract.\<close>

record 't document_info =
  info_id :: pystr
  info_filename :: pystr
  info_file_type :: pystr
  info_chunk_count :: int
  info_uploaded_at :: 't
  info_file_size :: int

text \<open>
  The upload directory: its files by name, each either raw bytes or the JSON text of a
  \<open>DocumentInfo\<close>, which is kept as the record it serialises.
\<close>

datatype 't file_content = RawBytes "byte list" | MetadataJson "'t document_info"

type_synonym 't directory = "(pystr \<times> 't file_content) list"

definition file_exists :: "pystr \<Rightarrow> 't directory \<Rightarrow> bool" where
  "file_exists name dir \<longleftrightarrow> name \<in> fst ` set dir"

definition unlink :: "pystr \<Rightarrow> 't directory \<Rightarrow> 't directory" where
  "unlink name dir = filter (\<lambda>f. fst f \<noteq> name) dir"

definition write_file :: "pystr \<Rightarrow> 't file_content \<Rightarrow> 't directory \<Rightarrow> 't directory" where
  "write_file name data dir = (name, data) # unlink name dir"

text \<open>The state the ingestion service works on.\<close>

record 't storage =
  collection :: "entry list"
  upload_dir :: "'t directory"

text \<open>
  The external services: the PDF reader, the MD5 digest, the embedding call
  \<open>mistral.embeddings.create\<close> (which may raise) and the clock.
\<close>

record 't services =
  pdf_pages :: "byte list \<Rightarrow> exn + pystr list"
  md5_hexdigest :: "pystr \<Rightarrow> pystr"
  embeddings_create :: "pystr list \<Rightarrow> exn + embedding list"
  utc_now :: 't

definition generate_embeddings ::
  "(pystr list \<Rightarrow> exn + embedding list) \<Rightarrow> pystr list \<Rightarrow> exn + embedding list" where
  "generate_embeddings create texts = (if texts = [] then Inr [] else create texts)"

subsection \<open>\<open>ingest_document\<close>\<close>

text \<open>The chunk id \<open>{doc_id}_chunk_{i}\<close> and the metadata of chunk \<open>i\<close>.\<close>

definition chunk_id :: "pystr \<Rightarrow> nat \<Rightarrow> pystr" where
  "chunk_id doc_id i = doc_id @ u ''_chunk_'' @ str_nat i"

definition chunk_meta :: "pystr \<Rightarrow> pystr \<Rightarrow> nat \<Rightarrow> nat \<Rightarrow> chunk_metadata" where
  "chunk_meta doc_id filename total_chunks i =
     \<lparr>meta_document_id = doc_id, meta_document_name = filename,
      meta_chunk_index = int i, meta_total_chunks = int total_chunks\<rparr>"

text \<open>\<open>s.lstrip(".")\<close>.\<close>

definition lstrip_dots :: "pystr \<Rightarrow> pystr" where
  "lstrip_dots s = dropWhile (\<lambda>c. c = 46) s"

text \<open>
  The pipeline. It returns the result or the exception raised, together with the
  state left behind: what was done before an exception stays done. Writing the raw
  file fails when the name has a slash, since the upload directory is flat.
\<close>

definition ingest_document ::
  "settings \<Rightarrow> 't services \<Rightarrow> byte list \<Rightarrow> pystr \<Rightarrow> int \<Rightarrow> 't storage
     \<Rightarrow> (exn + 't document_info) \<times> 't storage" where
  "ingest_document cfg svc file filename file_size st =
     (case extract_text (pdf_pages svc) file filename of
        Inl e \<Rightarrow> (Inl e, st)
      | Inr text \<Rightarrow>
          if strip text = [] then (Inl empty_content, st)
          else
            (let doc_id = generate_document_id (md5_hexdigest svc) filename text;
                 existing = collection_get_ids doc_id (collection st);
                 st = (if existing \<noteq> []
                       then st\<lparr>collection := collection_delete existing (collection st)\<rparr>
                       else st);
                 chunks = chunk_text cfg text
             in if chunks = [] then (Inl chunking_failed, st)
                else
                  (case generate_embeddings (embeddings_create svc) chunks of
                     Inl e \<Rightarrow> (Inl e, st)
                   | Inr embeddings \<Rightarrow>
                       (let ids = map (chunk_id doc_id) [0..<length chunks];
                            metadatas = map (chunk_meta doc_id filename (length chunks))
                                          [0..<length chunks]
                        in case collection_add ids embeddings chunks metadatas (collection st) of
                             Inl e \<Rightarrow> (Inl e, st)
                           | Inr coll \<Rightarrow>
                               (let st = st\<lparr>collection := coll\<rparr>
                                in if 47 \<in> set filename
                                   then (Inl (OtherError (u ''FileNotFoundError'')), st)
                                   else
                                     (let st = st\<lparr>upload_dir :=
                                                 write_file (doc_id @ u ''_'' @ filename)
                                                   (RawBytes file) (upload_dir st)\<rparr>;
                                          file_ext = lstrip_dots (lower (path_suffix filename));
                                          doc_info = \<lparr>info_id = doc_id, info_filename = filename,
                                                      info_file_type = file_ext,
                                                      info_chunk_count = int (length chunks),
                                                      info_uploaded_at = utc_now svc,
                                                      info_file_size = file_size\<rparr>;
                                          st = st\<lparr>upload_dir :=
                                                 write_file (doc_id @ u ''.json'')
                                                   (MetadataJson doc_info) (upload_dir st)\<rparr>
                                      in (Inr doc_info, st)))))))"

text \<open>
  The upload endpoint of \<open>app/api/documents.py\<close> turns the outcome into a status code:
  \<open>except ValueError\<close> gives 400, any other exception 500. \<open>UnicodeDecodeError\<close> and
  pydantic's \<open>ValidationError\<close> are subclasses of \<open>ValueError\<close>.
\<close>

fun is_value_error :: "exn \<Rightarrow> bool" where
  "is_value_error (ValueError msg) = True"
| "is_value_error UnicodeDecodeError = True"
| "is_value_error ValidationError = True"
| "is_value_error (OtherError msg) = False"

definition upload_status :: "exn + 'a \<Rightarrow> nat" where
  "upload_status outcome =
     (case outcome of
        Inr doc_info \<Rightarrow> 200
      | Inl e \<Rightarrow> if is_value_error e then 400 else 500)"

subsection \<open>\<open>delete_document\<close>\<close>

text \<open>
  \<open>glob_match\<close> stands for the matching of \<open>Path.glob\<close>: whether a file name of the
  upload directory matches a pattern. The loop unlinks every match whose suffix is not
  \<open>.json\<close>.
\<close>

definition glob_files :: "(pystr \<Rightarrow> pystr \<Rightarrow> bool) \<Rightarrow> pystr \<Rightarrow> 't directory \<Rightarrow> pystr list" where
  "glob_files glob_match pattern dir = filter (glob_match pattern) (map fst dir)"

fun unlink_documents :: "pystr list \<Rightarrow> 't directory \<times> bool \<Rightarrow> 't directory \<times> bool" where
  "unlink_documents [] acc = acc"
| "unlink_documents (doc_file # rest) (dir, deleted) =
     (if path_suffix doc_file \<noteq> u ''.json''
      then unlink_documents rest (unlink doc_file dir, True)
      else unlink_documents rest (dir, deleted))"

definition delete_document ::
  "(pystr \<Rightarrow> pystr \<Rightarrow> bool) \<Rightarrow> pystr \<Rightarrow> 't storage \<Rightarrow> bool \<times> 't storage" where
  "delete_document glob_match doc_id st =
     (let existing = collection_get_ids doc_id (collection st);
          st = (if existing \<noteq> []
                then st\<lparr>collection := collection_delete existing (collection st)\<rparr>
                else st);
          deleted = False;
          metadata_file = doc_id @ u ''.json'';
          (dir, deleted) = (if file_exists metadata_file (upload_dir st)
                            then (unlink metadata_file (upload_dir st), True)
                            else (upload_dir st, deleted));
          (dir, deleted) = unlink_documents
                             (glob_files glob_match (doc_id @ u ''_*'') dir) (dir, deleted)
      in (deleted, st\<lparr>upload_dir := dir\<rparr>))"

text \<open>
  The matching of a pattern that is literal up to a final \<open>*\<close>, as \<open>{doc_id}_*\<close> is
  for every id without the characters \<open>*\<close>, \<open>?\<close> and \<open>[\<close>: the names that start with
  the literal part.
\<close>

definition prefix_glob :: "pystr \<Rightarrow> pystr \<Rightarrow> bool" where
  "prefix_glob pattern name \<longleftrightarrow> prefix (butlast pattern) name"

text \<open>
  The invariant of a collection filled by \<open>ingest_document\<close>: the ids are distinct
  and every record has the chunk id of its own metadata.
\<close>

definition collection_inv :: "entry list \<Rightarrow> bool" where
  "collection_inv coll \<longleftrightarrow>
     distinct (map entry_id coll)
     \<and> (\<forall>e \<in> set coll.
          0 \<le> meta_chunk_index (entry_metadata e)
          \<and> entry_id e = chunk_id (meta_document_id (entry_metadata e))
                            (nat (meta_chunk_index (entry_metadata e))))"

text \<open>The number of records of a document in the collection.\<close>

definition count_document :: "pystr \<Rightarrow> entry list \<Rightarrow> nat" where
  "count_document doc_id coll =
     length (filter (\<lambda>e. meta_document_id (entry_metadata e) = doc_id) coll)"

subsection \<open>Example values\<close>

text \<open>
  A stand-in for the digest, used to exercise the theorems: 32 decimal digits computed
  from the content.
\<close>

definition toy_digest :: "pystr \<Rightarrow> pystr" where
  "toy_digest s = take 32 (map (\<lambda>c. 48 + c mod 10) s @ replicate 32 48)"

text \<open>
  Stand-ins for the external services (a reader that finds no page, the digest above,
  an embedding of one number per text, a clock at 0) and the empty storage.
\<close>

definition example_services :: "nat services" where
  "example_services =
     \<lparr>pdf_pages = (\<lambda>file. Inr []), md5_hexdigest = toy_digest,
      embeddings_create = (\<lambda>texts. Inr (map (\<lambda>t. [real (length t)]) texts)), utc_now = 0\<rparr>"

definition empty_storage :: "nat storage" where
  "empty_storage = \<lparr>collection = [], upload_dir = []\<rparr>"

section \<open>Properties of the prompt builder\<close>

lemma slice_from_last: "0 < k \<Longrightarrow> slice_from (- int k) xs = drop (length xs - k) xs"
  by (auto simp: slice_from_def Let_def max_def nat_diff_distrib' intro: arg_cong2 [where f = drop])

lemma join_member_sublist: "x \<in> set parts \<Longrightarrow> sublist x (join sep parts)"
proof (induction sep parts rule: join.induct)
  case (3 sep a b ys)
  show ?case
  proof (cases "x = a")
    case True
    then show ?thesis by simp
  next
    case False
    with 3 have "sublist x (join sep (b # ys))" by simp
    then obtain ps ss where "join sep (b # ys) = ps @ x @ ss" by (auto simp: sublist_def)
    then have "join sep (a # b # ys) = (a @ sep @ ps) @ x @ ss" by simp
    then show ?thesis unfolding sublist_def by blast
  qed
qed simp_all

lemma length_context_parts: "length (context_parts i sources) = length sources"
  by (induction sources arbitrary: i) simp_all

lemma nth_context_parts:
  "k < length sources \<Longrightarrow> context_parts i sources ! k = excerpt (i + k) (sources ! k)"
proof (induction sources arbitrary: i k)
  case Nil
  then show ?case by simp
next
  case (Cons s ss)
  then show ?case by (cases k) simp_all
qed

lemma content_in_excerpt: "sublist (content s) (excerpt i s)"
proof -
  have "excerpt i s =
    (u ''[Excerpt '' @ str_nat i @ u '' from '' @ [39] @ document_name s @ [39] @ u '']:'' @ nl)
      @ content s @ []"
    by (simp add: excerpt_def)
  then show ?thesis unfolding sublist_def by blast
qed

lemma sublist_trans': "sublist xs ys \<Longrightarrow> sublist ys zs \<Longrightarrow> sublist xs zs"
  by (rule sublist_order.order_trans)

lemma excerpt_in_system_content:
  assumes "k < length sources"
  shows "sublist (excerpt (Suc k) (sources ! k)) (system_content sources)"
proof -
  from assms have "excerpt (Suc k) (sources ! k) \<in> set (context_parts 1 sources)"
    using nth_context_parts [of k sources 1] length_context_parts [of 1 sources]
    by (metis One_nat_def nth_mem plus_1_eq_Suc)
  then have "sublist (excerpt (Suc k) (sources ! k)) (join context_rule (context_parts 1 sources))"
    by (rule join_member_sublist)
  then obtain ps ss where
    "join context_rule (context_parts 1 sources) = ps @ excerpt (Suc k) (sources ! k) @ ss"
    by (auto simp: sublist_def)
  moreover from assms have "sources \<noteq> []" by auto
  ultimately have "system_content sources =
    (system_instructions @ nl @ nl @ u ''## Document Context:'' @ nl @ nl @ ps)
      @ excerpt (Suc k) (sources ! k) @ ss"
    by (simp add: system_content_def)
  then show ?thesis unfolding sublist_def by blast
qed

lemma role_value_not_system: "role_value r \<noteq> u ''system''"
  by (cases r) (simp_all add: u_def)

lemma context_parts_map:
  "context_parts i sources = map (\<lambda>k. excerpt (i + k) (sources ! k)) [0..<length sources]"
  by (rule nth_equalityI) (simp_all add: length_context_parts nth_context_parts)

lemma join_Cons: "join sep (x # xs) = x @ concat (map (\<lambda>y. sep @ y) xs)"
  by (induction sep "x # xs" arbitrary: x xs rule: join.induct) simp_all

lemma join_hd_tl: "xs \<noteq> [] \<Longrightarrow> join sep xs = hd xs @ concat (map (\<lambda>y. sep @ y) (tl xs))"
  by (cases xs) (simp_all add: join_Cons)

lemma str_nat_digit: "n < 10 \<Longrightarrow> str_nat n = [48 + n]"
  by (simp add: str_nat.simps)

lemma str_nat_digits: "d \<in> set (str_nat n) \<Longrightarrow> 48 \<le> d \<and> d \<le> 57"
proof (induction n rule: str_nat.induct)
  case (1 n)
  show ?case
  proof (cases "n < 10")
    case True
    with 1(2) show ?thesis by (simp add: str_nat_digit)
  next
    case False
    then have eq: "str_nat n = str_nat (n div 10) @ [48 + n mod 10]"
      by (subst str_nat.simps) simp
    from 1(2) [unfolded eq] have "d \<in> set (str_nat (n div 10)) \<or> d = 48 + n mod 10" by auto
    moreover have "n mod 10 < 10" by simp
    ultimately show ?thesis using 1(1) [OF False] by auto
  qed
qed

lemma str_nat_value: "foldl (\<lambda>a d. 10 * a + (d - 48)) 0 (str_nat n) = n"
proof (induction n rule: str_nat.induct)
  case (1 n)
  show ?case
  proof (cases "n < 10")
    case True
    then show ?thesis by (simp add: str_nat_digit)
  next
    case False
    then have "str_nat n = str_nat (n div 10) @ [48 + n mod 10]"
      by (subst str_nat.simps) simp
    then show ?thesis using 1 [OF False] by simp
  qed
qed

lemma str_nat_no_leading_zero: "0 < n \<Longrightarrow> str_nat n \<noteq> [] \<and> hd (str_nat n) \<noteq> 48"
proof (induction n rule: str_nat.induct)
  case (1 n)
  show ?case
  proof (cases "n < 10")
    case True
    with 1(2) show ?thesis by (simp add: str_nat_digit)
  next
    case False
    then have eq: "str_nat n = str_nat (n div 10) @ [48 + n mod 10]"
      by (subst str_nat.simps) simp
    from False have "0 < n div 10" by simp
    with 1(1) [OF False] have "str_nat (n div 10) \<noteq> [] \<and> hd (str_nat (n div 10)) \<noteq> 48" by simp
    then show ?thesis by (simp add: eq)
  qed
qed

text \<open>
  Claim C8. For every question, source list and history, the prompt is one system
  message, then the last six history messages (all of them when there are fewer) in
  their order, each with its role value and its content verbatim, then the question
  as the final user message. The system content is the fixed instructions followed,
  when there are no sources, by the no-documents note, and otherwise by the heading
  \<open>## Document Context:\<close> and one block per source, in order and separated by a rule
  \<open>---\<close> between blank lines: block \<open>k\<close> (counted from 1) is the line
  \<open>[Excerpt k from 'document_name']:\<close> followed by the content of the source verbatim,
  where \<open>k\<close> is written in decimal without leading zero. So every block and every
  source content occurs in the system content. No history message has the system
  role, so the first message is the only system message. Being a HOL function, the
  builder is deterministic and free of effects.
\<close>

theorem build_rag_prompt_structure:
  "\<exists>h blocks sc.
     h = (case history of None \<Rightarrow> [] | Some h \<Rightarrow> h)
   \<and> blocks = map (\<lambda>k. u ''[Excerpt '' @ str_nat (Suc k) @ u '' from '' @ [39]
                        @ document_name (sources ! k) @ [39] @ u '']:'' @ [10]
                        @ content (sources ! k)) [0..<length sources]
   \<and> sc = u ''You are a helpful assistant that answers questions based on the provided document excerpts.''
          @ [10, 10] @ u ''Guidelines:''
          @ [10] @ u ''- Answer questions using ONLY the information from the provided context''
          @ [10] @ u ''- If the context doesn't contain enough information, say so clearly''
          @ [10] @ u ''- Be concise but thorough''
          @ [10] @ u ''- When relevant, mention which document(s) the information comes from''
          @ [10] @ u ''- If asked about something not in the documents, politely explain you can only answer based on the uploaded documents''
          @ (if sources = []
             then [10, 10] @ u ''Note: No documents have been uploaded yet. Please ask the user to upload documents first.''
             else [10, 10] @ u ''## Document Context:'' @ [10, 10]
                  @ hd blocks @ concat (map (\<lambda>b. [10, 10] @ u ''---'' @ [10, 10] @ b) (tl blocks)))
   \<and> build_rag_prompt question sources history =
       (u ''system'', sc)
         # map (\<lambda>m. (case role m of USER \<Rightarrow> u ''user'' | ASSISTANT \<Rightarrow> u ''assistant'', msg_content m))
             (drop (length h - 6) h)
         @ [(u ''user'', question)]
   \<and> length (drop (length h - 6) h) \<le> 6
   \<and> (\<forall>k < length sources.
         sublist (blocks ! k) sc \<and> sublist (content (sources ! k)) sc
         \<and> (\<forall>d \<in> set (str_nat (Suc k)). 48 \<le> d \<and> d \<le> 57)
         \<and> hd (str_nat (Suc k)) \<noteq> 48
         \<and> foldl (\<lambda>a d. 10 * a + (d - 48)) 0 (str_nat (Suc k)) = Suc k)
   \<and> (\<forall>m \<in> set h. (case role m of USER \<Rightarrow> u ''user'' | ASSISTANT \<Rightarrow> u ''assistant'') \<noteq> u ''system'')"
proof -
  define h where "h = (case history of None \<Rightarrow> [] | Some h \<Rightarrow> h)"
  define blocks where "blocks = map (\<lambda>k. u ''[Excerpt '' @ str_nat (Suc k) @ u '' from '' @ [39]
                        @ document_name (sources ! k) @ [39] @ u '']:'' @ [10]
                        @ content (sources ! k)) [0..<length sources]"
  define sc where "sc = u ''You are a helpful assistant that answers questions based on the provided document excerpts.''
          @ [10, 10] @ u ''Guidelines:''
          @ [10] @ u ''- Answer questions using ONLY the information from the provided context''
          @ [10] @ u ''- If the context doesn't contain enough information, say so clearly''
          @ [10] @ u ''- Be concise but thorough''
          @ [10] @ u ''- When relevant, mention which document(s) the information comes from''
          @ [10] @ u ''- If asked about something not in the documents, politely explain you can only answer based on the uploaded documents''
          @ (if sources = []
             then [10, 10] @ u ''Note: No documents have been uploaded yet. Please ask the user to upload documents first.''
             else [10, 10] @ u ''## Document Context:'' @ [10, 10]
                  @ hd blocks @ concat (map (\<lambda>b. [10, 10] @ u ''---'' @ [10, 10] @ b) (tl blocks)))"
  have hh: "h = history_or_empty history" by (simp add: h_def history_or_empty_def)
  have blocks: "blocks = context_parts 1 sources"
    by (simp add: blocks_def context_parts_map excerpt_def nl_def)
  have blocks_ne: "sources \<noteq> [] \<Longrightarrow> context_parts 1 sources \<noteq> []"
    using length_context_parts [of 1 sources] by auto
  have sc: "sc = system_content sources"
  proof (cases "sources = []")
    case True
    then show ?thesis
      by (simp add: sc_def system_content_def system_instructions_def no_documents_note_def nl_def)
  next
    case False
    have "join context_rule (context_parts 1 sources)
            = hd blocks @ concat (map (\<lambda>b. [10, 10] @ u ''---'' @ [10, 10] @ b) (tl blocks))"
      using join_hd_tl [OF blocks_ne [OF False], of context_rule]
      by (simp add: blocks context_rule_def nl_def)
    with False show ?thesis
      by (simp add: sc_def system_content_def system_instructions_def nl_def)
  qed
  have hm: "(\<lambda>m. (case role m of USER \<Rightarrow> u ''user'' | ASSISTANT \<Rightarrow> u ''assistant'', msg_content m))
              = history_message"
  proof
    fix m show "(case role m of USER \<Rightarrow> u ''user'' | ASSISTANT \<Rightarrow> u ''assistant'', msg_content m)
                  = history_message m"
      by (cases "role m") (simp_all add: history_message_def)
  qed
  have shape: "build_rag_prompt question sources history =
       (u ''system'', sc)
         # map (\<lambda>m. (case role m of USER \<Rightarrow> u ''user'' | ASSISTANT \<Rightarrow> u ''assistant'', msg_content m))
             (drop (length h - 6) h)
         @ [(u ''user'', question)]"
  proof -
    have "slice_from (- 6) xs = drop (length xs - 6) xs" for xs :: "chat_message list"
      using slice_from_last [of 6 xs] by simp
    then show ?thesis unfolding hm sc hh
      by (cases history) (simp_all add: build_rag_prompt_def history_or_empty_def Let_def)
  qed
  have len: "length (drop (length h - 6) h) \<le> 6" by simp
  have src: "\<forall>k < length sources.
         sublist (blocks ! k) sc \<and> sublist (content (sources ! k)) sc
         \<and> (\<forall>d \<in> set (str_nat (Suc k)). 48 \<le> d \<and> d \<le> 57)
         \<and> hd (str_nat (Suc k)) \<noteq> 48
         \<and> foldl (\<lambda>a d. 10 * a + (d - 48)) 0 (str_nat (Suc k)) = Suc k"
  proof (intro allI impI conjI)
    fix k assume k: "k < length sources"
    then have bk: "blocks ! k = excerpt (Suc k) (sources ! k)"
      using nth_context_parts [of k sources 1] by (simp add: blocks)
    show "sublist (blocks ! k) sc"
      unfolding bk sc using k by (rule excerpt_in_system_content)
    show "sublist (content (sources ! k)) sc"
      unfolding sc using excerpt_in_system_content [OF k] content_in_excerpt sublist_trans' by blast
    show "\<forall>d \<in> set (str_nat (Suc k)). 48 \<le> d \<and> d \<le> 57"
      using str_nat_digits by blast
    show "hd (str_nat (Suc k)) \<noteq> 48"
      using str_nat_no_leading_zero [of "Suc k"] by simp
    show "foldl (\<lambda>a d. 10 * a + (d - 48)) 0 (str_nat (Suc k)) = Suc k"
      by (rule str_nat_value)
  qed
  have roles: "\<forall>m \<in> set h. (case role m of USER \<Rightarrow> u ''user'' | ASSISTANT \<Rightarrow> u ''assistant'') \<noteq> u ''system''"
  proof
    fix m show "(case role m of USER \<Rightarrow> u ''user'' | ASSISTANT \<Rightarrow> u ''assistant'') \<noteq> u ''system''"
      by (cases "role m") (simp_all add: u_def)
  qed
  show ?thesis
    by (intro exI [of _ h] exI [of _ blocks] exI [of _ sc] conjI)
       (fact h_def blocks_def sc_def shape len src roles)+
qed

theorem build_rag_prompt_structure_witness:
  "build_rag_prompt (u ''New question'')
     [\<lparr>document_id = u ''doc1'', document_name = u ''test.pdf'', chunk_index = 0,
       content = u ''Test content'', score = 0.95\<rparr>,
      \<lparr>document_id = u ''doc2'', document_name = u ''b.txt'', chunk_index = 3,
       content = u ''More'', score = 0.5\<rparr>]
     (Some [\<lparr>role = USER, msg_content = u ''q1''\<rparr>, \<lparr>role = ASSISTANT, msg_content = u ''a1''\<rparr>,
            \<lparr>role = USER, msg_content = u ''q2''\<rparr>, \<lparr>role = ASSISTANT, msg_content = u ''a2''\<rparr>,
            \<lparr>role = USER, msg_content = u ''q3''\<rparr>, \<lparr>role = ASSISTANT, msg_content = u ''a3''\<rparr>,
            \<lparr>role = USER, msg_content = u ''q4''\<rparr>])
   = [(u ''system'',
       u ''You are a helpful assistant that answers questions based on the provided document excerpts.''
       @ [10, 10] @ u ''Guidelines:''
       @ [10] @ u ''- Answer questions using ONLY the information from the provided context''
       @ [10] @ u ''- If the context doesn't contain enough information, say so clearly''
       @ [10] @ u ''- Be concise but thorough''
       @ [10] @ u ''- When relevant, mention which document(s) the information comes from''
       @ [10] @ u ''- If asked about something not in the documents, politely explain you can only answer based on the uploaded documents''
       @ [10, 10] @ u ''## Document Context:'' @ [10, 10]
       @ u ''[Excerpt 1 from '' @ [39] @ u ''test.pdf'' @ [39] @ u '']:'' @ [10] @ u ''Test content''
       @ [10, 10] @ u ''---'' @ [10, 10]
       @ u ''[Excerpt 2 from '' @ [39] @ u ''b.txt'' @ [39] @ u '']:'' @ [10] @ u ''More''),
      (u ''assistant'', u ''a1''), (u ''user'', u ''q2''), (u ''assistant'', u ''a2''),
      (u ''user'', u ''q3''), (u ''assistant'', u ''a3''), (u ''user'', u ''q4''),
      (u ''user'', u ''New question'')]
   \<and> build_rag_prompt (u ''Hello'') [] None
   = [(u ''system'',
       u ''You are a helpful assistant that answers questions based on the provided document excerpts.''
       @ [10, 10] @ u ''Guidelines:''
       @ [10] @ u ''- Answer questions using ONLY the information from the provided context''
       @ [10] @ u ''- If the context doesn't contain enough information, say so clearly''
       @ [10] @ u ''- Be concise but thorough''
       @ [10] @ u ''- When relevant, mention which document(s) the information comes from''
       @ [10] @ u ''- If asked about something not in the documents, politely explain you can only answer based on the uploaded documents''
       @ [10, 10] @ u ''Note: No documents have been uploaded yet. Please ask the user to upload documents first.''),
      (u ''user'', u ''Hello'')]"
  using build_rag_prompt_structure [of
     "Some [\<lparr>role = USER, msg_content = u ''q1''\<rparr>, \<lparr>role = ASSISTANT, msg_content = u ''a1''\<rparr>,
            \<lparr>role = USER, msg_content = u ''q2''\<rparr>, \<lparr>role = ASSISTANT, msg_content = u ''a2''\<rparr>,
            \<lparr>role = USER, msg_content = u ''q3''\<rparr>, \<lparr>role = ASSISTANT, msg_content = u ''a3''\<rparr>,
            \<lparr>role = USER, msg_content = u ''q4''\<rparr>]"
     "[\<lparr>document_id = u ''doc1'', document_name = u ''test.pdf'', chunk_index = 0,
       content = u ''Test content'', score = 0.95\<rparr>,
      \<lparr>document_id = u ''doc2'', document_name = u ''b.txt'', chunk_index = 3,
       content = u ''More'', score = 0.5\<rparr>]"
     "u ''New question''"]
    build_rag_prompt_structure [of None "[]" "u ''Hello''"]
  by (simp add: str_nat_digit upt_conv_Cons u_def)

section \<open>Properties of the streaming protocol\<close>

lemma stream_events_deltas:
  "stream_events items
     = map (\<lambda>c. (u ''content'', StrData c))
         (concat (map (\<lambda>item. case item of Some c # rest \<Rightarrow> if c \<noteq> [] then [c] else []
                                  | _ \<Rightarrow> []) items))"
proof (induction items)
  case Nil
  then show ?case by simp
next
  case (Cons item items)
  then show ?case by (simp split: list.splits option.splits)
qed

lemma deltas_nonempty:
  "c \<in> set (concat (map (\<lambda>item. case item of Some c # rest \<Rightarrow> if c \<noteq> [] then [c] else []
                                  | _ \<Rightarrow> []) items))
   \<Longrightarrow> c \<noteq> [] \<and> (\<exists>rest. Some c # rest \<in> set items)"
proof (induction items)
  case Nil
  then show ?case by simp
next
  case (Cons item items)
  then show ?case by (auto split: list.splits option.splits if_splits)
qed

lemma tags_distinct:
  "u ''sources'' \<noteq> u ''done''" "u ''sources'' \<noteq> u ''error''"
  "u ''content'' \<noteq> u ''done''" "u ''content'' \<noteq> u ''error''"
  "u ''content'' \<noteq> u ''sources''" "u ''done'' \<noteq> u ''error''"
  by (simp_all add: u_def)

text \<open>
  Claim C7. Every event sequence of the streaming endpoint is one sources event
  carrying the source list, then one content event for every item of the model stream
  whose first choice has a non-empty delta, in order and carrying that delta, then one
  terminal event: done with no payload when the model stream ended normally, error
  with the message when it raised. Every event of type content carries a non-empty
  string; the terminal event is the last event and the only one of type done or error;
  the sources event is the first event and the only one of its type.
\<close>

theorem event_stream_protocol:
  "\<exists>cs terminal.
     cs = concat (map (\<lambda>item. case item of Some c # rest \<Rightarrow> if c \<noteq> [] then [c] else []
                               | _ \<Rightarrow> [])
                    (fst (chat_stream (build_rag_prompt question sources history))))
     \<and> terminal = (case snd (chat_stream (build_rag_prompt question sources history)) of
                     Finished \<Rightarrow> (u ''done'', NoData)
                   | Raised e \<Rightarrow> (u ''error'', StrData e))
     \<and> event_generator chat_stream question sources history
         = (u ''sources'', SourcesData sources) # map (\<lambda>c. (u ''content'', StrData c)) cs @ [terminal]
     \<and> (\<forall>c \<in> set cs. c \<noteq> []
           \<and> (\<exists>rest. Some c # rest \<in> set (fst (chat_stream (build_rag_prompt question sources history)))))
     \<and> (\<forall>ev \<in> set (event_generator chat_stream question sources history).
           fst ev = u ''content'' \<longrightarrow> (\<exists>c. snd ev = StrData c \<and> c \<noteq> []))
     \<and> hd (event_generator chat_stream question sources history) = (u ''sources'', SourcesData sources)
     \<and> last (event_generator chat_stream question sources history) = terminal
     \<and> filter (\<lambda>ev. fst ev = u ''done'' \<or> fst ev = u ''error'')
          (event_generator chat_stream question sources history) = [terminal]
     \<and> filter (\<lambda>ev. fst ev = u ''sources'') (event_generator chat_stream question sources history)
         = [(u ''sources'', SourcesData sources)]"
proof -
  obtain items ending where cs: "chat_stream (build_rag_prompt question sources history) = (items, ending)"
    by (cases "chat_stream (build_rag_prompt question sources history)")
  define cs where "cs = concat (map (\<lambda>item. case item of Some c # rest \<Rightarrow> if c \<noteq> [] then [c] else []
                               | _ \<Rightarrow> []) items)"
  have evs: "stream_events items = map (\<lambda>c. (u ''content'', StrData c)) cs"
    unfolding cs_def by (rule stream_events_deltas)
  have ne: "\<forall>c \<in> set cs. c \<noteq> [] \<and> (\<exists>rest. Some c # rest \<in> set items)"
    unfolding cs_def using deltas_nonempty by blast
  define terminal where "terminal = (case ending of Finished \<Rightarrow> (u ''done'', NoData)
                                     | Raised e \<Rightarrow> (u ''error'', StrData e))"
  let ?events = "event_generator chat_stream question sources history"
  have shape: "?events
       = (u ''sources'', SourcesData sources) # map (\<lambda>c. (u ''content'', StrData c)) cs @ [terminal]"
    using cs evs by (cases ending) (simp_all add: event_generator_def generate_stream_def terminal_def)
  have tterm: "fst terminal = u ''done'' \<or> fst terminal = u ''error''"
    by (cases ending) (simp_all add: terminal_def)
  have tcont: "fst terminal \<noteq> u ''content''"
    using tags_distinct by (cases ending) (auto simp: terminal_def)
  have tsrc: "fst terminal \<noteq> u ''sources''"
    using tags_distinct by (cases ending) (auto simp: terminal_def)
  have nonterm: "filter (\<lambda>ev. fst ev = u ''done'' \<or> fst ev = u ''error'')
                   (map (\<lambda>c. (u ''content'', StrData c)) cs) = []"
    by (induction cs) (simp_all add: tags_distinct)
  have nonsrc: "filter (\<lambda>ev. fst ev = u ''sources'') (map (\<lambda>c. (u ''content'', StrData c)) cs) = []"
    by (induction cs) (simp_all add: tags_distinct)
  have payload: "\<forall>ev \<in> set ?events. fst ev = u ''content'' \<longrightarrow> (\<exists>c. snd ev = StrData c \<and> c \<noteq> [])"
    unfolding shape using ne tcont tags_distinct(5) by auto
  have f1: "filter (\<lambda>ev. fst ev = u ''done'' \<or> fst ev = u ''error'') ?events = [terminal]"
    using tterm nonterm by (simp add: shape tags_distinct)
  have f2: "filter (\<lambda>ev. fst ev = u ''sources'') ?events = [(u ''sources'', SourcesData sources)]"
    using tsrc nonsrc by (simp add: shape)
  have h: "hd ?events = (u ''sources'', SourcesData sources)" by (simp add: shape)
  have l: "last ?events = terminal" by (simp add: shape)
  show ?thesis
  proof (intro exI [of _ cs] exI [of _ terminal] conjI)
    show "cs = concat (map (\<lambda>item. case item of Some c # rest \<Rightarrow> if c \<noteq> [] then [c] else []
                               | _ \<Rightarrow> [])
                    (fst (chat_stream (build_rag_prompt question sources history))))"
      by (simp add: cs_def cs)
    show "terminal = (case snd (chat_stream (build_rag_prompt question sources history)) of
                     Finished \<Rightarrow> (u ''done'', NoData)
                   | Raised e \<Rightarrow> (u ''error'', StrData e))"
      by (simp add: terminal_def cs)
    show "\<forall>c \<in> set cs. c \<noteq> []
           \<and> (\<exists>rest. Some c # rest \<in> set (fst (chat_stream (build_rag_prompt question sources history))))"
      using ne by (simp add: cs)
  qed (fact shape payload h l f1 f2)+
qed

theorem event_stream_protocol_witness:
  "event_generator
     (\<lambda>messages. ([[Some (u ''Hi'')], [], [None], [Some []], [Some (u ''!''), Some []]], Raised (u ''boom'')))
     (u ''q'') [] None
   = [(u ''sources'', SourcesData []), (u ''content'', StrData (u ''Hi'')),
      (u ''content'', StrData (u ''!'')), (u ''error'', StrData (u ''boom''))]
   \<and> event_generator (\<lambda>messages. ([[Some []], [Some (u ''ok'')]], Finished)) (u ''q'') [] None
   = [(u ''sources'', SourcesData []), (u ''content'', StrData (u ''ok'')), (u ''done'', NoData)]"
  using event_stream_protocol
    [of "\<lambda>messages. ([[Some (u ''Hi'')], [], [None], [Some []], [Some (u ''!''), Some []]], Raised (u ''boom''))"
        "u ''q''" "[]" None]
    event_stream_protocol
    [of "\<lambda>messages. ([[Some []], [Some (u ''ok'')]], Finished)" "u ''q''" "[]" None]
  by (simp add: u_def)

section \<open>Properties of the score conversion\<close>

lemma round_half_even_of_int [simp]: "round_half_even (of_int n) = n"
  by (simp add: round_half_even_def)

lemma round_half_even_zero [simp]: "round_half_even 0 = 0"
  using round_half_even_of_int [of 0] by simp

lemma round_half_even_nonneg: "0 \<le> x \<Longrightarrow> 0 \<le> round_half_even x"
  by (auto simp: round_half_even_def Let_def)








































section \<open>Properties of the chunker\<close>

lemma collapse_ws_chars: "c \<in> set (collapse_ws s) \<Longrightarrow> c = 32 \<or> \<not> is_space c"
proof (induction s arbitrary: c rule: collapse_ws.induct)
  case 1
  then show ?case by simp
next
  case (2 a cs)
  then show ?case by (auto split: if_splits)
qed

lemma set_strip_subset: "set (strip s) \<subseteq> set s"
proof -
  have "set (strip s) \<subseteq> set (dropWhile is_space s)"
    unfolding strip_def using set_dropWhileD [of _ is_space "rev (dropWhile is_space s)"] by auto
  also have "\<dots> \<subseteq> set s" using set_dropWhileD by fastforce
  finally show ?thesis .
qed

lemma clean_text_no_newline: "10 \<notin> set (clean_text s)"
proof
  assume "10 \<in> set (clean_text s)"
  then have "10 \<in> set (collapse_ws s)" using set_strip_subset by (auto simp: clean_text_def)
  then have "(10::nat) = 32 \<or> \<not> is_space 10" by (rule collapse_ws_chars)
  then show False by (simp add: is_space_def)
qed

lemma split_paragraphs_no_newline: "10 \<notin> set s \<Longrightarrow> split_paragraphs s = [s]"
  by (induction s rule: split_paragraphs.induct) auto

lemma split_paragraphs_clean: "split_paragraphs (clean_text s) = [clean_text s]"
  by (rule split_paragraphs_no_newline [OF clean_text_no_newline])

lemma dropWhile_id: "(xs = [] \<or> \<not> P (hd xs)) \<Longrightarrow> dropWhile P xs = xs"
  by (cases xs) auto

lemma strip_ends:
  "strip s \<noteq> [] \<Longrightarrow> \<not> is_space (hd (strip s)) \<and> \<not> is_space (last (strip s))"
proof -
  assume ne: "strip s \<noteq> []"
  let ?a = "dropWhile is_space s"
  let ?b = "dropWhile is_space (rev ?a)"
  have b: "?b \<noteq> []" using ne by (simp add: strip_def)
  then have lastb: "\<not> is_space (hd ?b)" by (rule hd_dropWhile)
  have a: "?a \<noteq> []"
  proof
    assume h: "?a = []"
    have "?b = dropWhile is_space (rev [])" by (simp only: h)
    with b show False by simp
  qed
  then have hda: "\<not> is_space (hd ?a)" by (rule hd_dropWhile)
  have "\<exists>n. ?b = drop n (rev ?a)" by (metis dropWhile_eq_drop)
  then obtain n where n: "?b = drop n (rev ?a)" by blast
  have "strip s = rev ?b" by (simp add: strip_def)
  then have l: "last (strip s) = hd ?b" using b by (simp add: last_rev)
  have "last ?b = last (rev ?a)" using n b by (metis last_drop drop_eq_Nil not_le)
  then have "hd (rev ?b) = hd ?a" using a b by (simp add: hd_rev last_rev)
  with hda lastb l show ?thesis by (simp add: strip_def)
qed

lemma strip_idem [simp]: "strip (strip s) = strip s"
proof (cases "strip s = []")
  case True
  have "strip [] = []" by (simp add: strip_def)
  with True show ?thesis by simp
next
  case False
  then have e: "\<not> is_space (hd (strip s))" "\<not> is_space (last (strip s))"
    using strip_ends by auto
  have d1: "dropWhile is_space (strip s) = strip s" using e by (simp add: dropWhile_id)
  have "hd (rev (strip s)) = last (strip s)" using False by (simp add: hd_rev)
  then have d2: "dropWhile is_space (rev (strip s)) = rev (strip s)" using e by (simp add: dropWhile_id)
  show ?thesis unfolding strip_def [of "strip s"] d1 d2 by simp
qed

lemma length_strip_le: "length (strip s) \<le> length s"
proof -
  have "length (strip s) = length (dropWhile is_space (rev (dropWhile is_space s)))"
    by (simp add: strip_def)
  also have "\<dots> \<le> length (rev (dropWhile is_space s))" by (rule length_dropWhile_le)
  also have "\<dots> = length (dropWhile is_space s)" by simp
  also have "\<dots> \<le> length s" by (rule length_dropWhile_le)
  finally show ?thesis .
qed

lemma length_collapse_ws_le: "length (collapse_ws s) \<le> length s"
proof (induction s rule: collapse_ws.induct)
  case 1
  then show ?case by simp
next
  case (2 c cs)
  have "length (dropWhile is_space cs) \<le> length cs" by (rule length_dropWhile_le)
  with 2 show ?case by (auto intro: le_trans)
qed

lemma length_clean_text_le: "length (clean_text s) \<le> length s"
  unfolding clean_text_def using length_strip_le length_collapse_ws_le le_trans by blast

lemma strip_newlines_prefix: "strip ([10, 10] @ s) = strip s"
  by (simp add: strip_def is_space_def)

lemma chunk_text_short:
  assumes "clean_text text \<noteq> []" and "int (length text) < chunk_size settings * 4"
  shows "chunk_text settings text = [clean_text text]"
proof -
  let ?t = "clean_text text"
  have st: "strip ?t = ?t" by (simp add: clean_text_def)
  have len: "\<not> chunk_size settings * 4 < int (length ?t)"
    using assms(2) length_clean_text_le [of "text"] by linarith
  have "chunk_loop settings ?t
      = \<lparr>chunks = [], current_chunk = [10, 10] @ ?t, flush_log = []\<rparr>"
    using assms(1) len by (simp add: chunk_loop_def split_paragraphs_clean add_paragraph_def st Let_def)
  moreover have "strip ([10, 10] @ ?t) = ?t" using st by (simp only: strip_newlines_prefix)
  ultimately show ?thesis using assms(1) by (simp add: chunk_text_def Let_def)
qed

lemma flush_inv_flush:
  "flush_inv ov st \<Longrightarrow> current_chunk st \<noteq> [] \<Longrightarrow> flush_inv ov (flush ov st)"
  by (auto simp: flush_inv_def flush_def Let_def)

lemma flush_inv_current [simp]:
  "flush_inv ov (st\<lparr>current_chunk := c\<rparr>) = flush_inv ov st"
  by (simp add: flush_inv_def)

lemma flush_inv_add_sentence:
  "flush_inv ov st \<Longrightarrow> flush_inv ov (add_sentence t ov st s)"
  by (simp add: add_sentence_def Let_def flush_inv_flush)

lemma flush_inv_sentences:
  "flush_inv ov st \<Longrightarrow> flush_inv ov (foldl (add_sentence t ov) st ss)"
  by (induction ss arbitrary: st) (simp_all add: flush_inv_add_sentence)

lemma flush_inv_add_paragraph:
  "flush_inv ov st \<Longrightarrow> flush_inv ov (add_paragraph t ov st p)"
  by (simp add: add_paragraph_def Let_def flush_inv_flush flush_inv_sentences)

lemma flush_inv_paragraphs:
  "flush_inv ov st \<Longrightarrow> flush_inv ov (foldl (add_paragraph t ov) st ps)"
  by (induction ps arbitrary: st) (simp_all add: flush_inv_add_paragraph)

lemma flush_inv_chunk_loop: "flush_inv (chunk_overlap settings * 4) (chunk_loop settings s)"
  unfolding chunk_loop_def Let_def
  by (rule flush_inv_paragraphs) (simp add: flush_inv_def)

lemma reseed_trailing:
  "0 \<le> ov \<Longrightarrow> reseed ov b = (if ov = 0 then [] else drop (length b - nat ov) b)"
  using slice_from_last [of "nat ov" b] by (auto simp: reseed_def)

lemma reseed_suffix: "suffix (reseed ov b) b"
  by (simp add: reseed_def slice_from_def Let_def suffix_drop)

lemma reseed_length: "0 \<le> ov \<Longrightarrow> length (reseed ov b) = min (nat ov) (length b)"
  by (auto simp: reseed_trailing)

lemma rtrim_Cons:
  "rtrim (x # xs) = (if rtrim xs = [] \<and> is_space x then [] else x # rtrim xs)"
  by (auto simp: rtrim_def dropWhile_append)

lemma strip_rtrim: "strip s = rtrim (dropWhile is_space s)"
  by (simp add: strip_def rtrim_def)

lemma suffix_strip_rtrim: "suffix (strip xs) (rtrim xs)"
proof (induction xs)
  case Nil
  then show ?case by (simp add: strip_rtrim)
next
  case (Cons a xs)
  show ?case
  proof (cases "is_space a")
    case False
    then show ?thesis by (simp add: strip_rtrim)
  next
    case True
    then have s: "strip (a # xs) = strip xs" by (simp add: strip_def)
    show ?thesis
    proof (cases "rtrim xs = []")
      case True
      with Cons have "strip xs = []" by simp
      with s show ?thesis by simp
    next
      case False
      with Cons s show ?thesis by (simp add: rtrim_Cons suffix_ConsI)
    qed
  qed
qed

lemma suffix_strip_Cons: "suffix (strip xs) (strip (x # xs))"
proof (cases "is_space x")
  case True
  then show ?thesis by (simp add: strip_def)
next
  case False
  then have "strip (x # xs) = x # rtrim xs" by (simp add: strip_rtrim rtrim_Cons)
  with suffix_strip_rtrim [of xs] show ?thesis by (simp add: suffix_ConsI)
qed

lemma suffix_strip_mono: "suffix ys xs \<Longrightarrow> suffix (strip ys) (strip xs)"
proof (induction xs)
  case Nil
  then show ?case by simp
next
  case (Cons x xs)
  from Cons.prems have "ys = x # xs \<or> suffix ys xs" by (simp add: suffix_Cons)
  then show ?case
  proof
    assume "ys = x # xs"
    then show ?thesis by simp
  next
    assume "suffix ys xs"
    then have "suffix (strip ys) (strip xs)" by (rule Cons.IH)
    then show ?thesis using suffix_strip_Cons suffix_order.trans by blast
  qed
qed

lemma strip_nonempty: "strip s \<noteq> [] \<longleftrightarrow> (\<exists>c \<in> set s. \<not> is_space c)"
proof
  assume ne: "strip s \<noteq> []"
  then have "hd (strip s) \<in> set (strip s)" by simp
  then have "hd (strip s) \<in> set s" using set_strip_subset [of s] by (rule set_mp [rotated])
  moreover have "\<not> is_space (hd (strip s))" using strip_ends [OF ne] by simp
  ultimately show "\<exists>c \<in> set s. \<not> is_space c" by (rule bexI [rotated])
next
  assume ex: "\<exists>c \<in> set s. \<not> is_space c"
  let ?a = "dropWhile is_space s"
  from ex have a: "?a \<noteq> []" by simp
  then have "\<not> is_space (hd ?a)" by (rule hd_dropWhile)
  moreover from a have "hd ?a \<in> set (rev ?a)" by simp
  ultimately have "\<exists>c \<in> set (rev ?a). \<not> is_space c" by (rule bexI)
  then have "dropWhile is_space (rev ?a) \<noteq> []" by simp
  then show "strip s \<noteq> []" by (simp add: strip_def)
qed

lemma last_dropWhile: "dropWhile P xs \<noteq> [] \<Longrightarrow> last (dropWhile P xs) = last xs"
  by (induction xs) (auto split: if_splits)

lemma split_sentences_nonempty [simp]: "split_sentences s \<noteq> []"
proof (cases s rule: split_sentences.cases)
  case 1
  then show ?thesis by simp
next
  case (2 c)
  then show ?thesis by simp
next
  case (3 c d cs)
  show ?thesis
  proof (cases "is_sentence_end c \<and> is_space d")
    case True
    have "split_sentences (c # d # cs) = [c] # split_sentences (dropWhile is_space cs)"
      unfolding split_sentences.simps(3) if_P [OF True] ..
    with 3 show ?thesis by simp
  next
    case False
    have "split_sentences (c # d # cs)
        = (case split_sentences (d # cs) of [] \<Rightarrow> [[c]] | p # ps \<Rightarrow> (c # p) # ps)"
      unfolding split_sentences.simps(3) if_not_P [OF False] ..
    with 3 show ?thesis by (cases "split_sentences (d # cs)") simp_all
  qed
qed

lemma split_sentences_last:
  "s \<noteq> [] \<Longrightarrow> \<not> is_space (last s) \<Longrightarrow>
     last (split_sentences s) \<noteq> [] \<and> last (last (split_sentences s)) = last s"
proof (induction s rule: split_sentences.induct)
  case 1
  then show ?case by simp
next
  case (2 c)
  then show ?case by simp
next
  case (3 c d cs)
  show ?case
  proof (cases "is_sentence_end c \<and> is_space d")
    case True
    let ?r = "dropWhile is_space cs"
    have "?r \<noteq> []"
    proof
      assume "?r = []"
      then have "\<forall>x \<in> set cs. is_space x" by simp
      with True have "is_space (last (c # d # cs))" by (cases "cs = []") auto
      with 3(3,4) show False by simp
    qed
    moreover then have "last ?r = last cs" by (rule last_dropWhile)
    moreover have "cs \<noteq> []" using \<open>?r \<noteq> []\<close> by auto
    ultimately have ih: "last (split_sentences ?r) \<noteq> [] \<and> last (last (split_sentences ?r)) = last cs"
      using 3(1) [OF True] 3(4) by simp
    have eq1: "split_sentences (c # d # cs) = [c] # split_sentences ?r"
      unfolding split_sentences.simps(3) if_P [OF True] ..
    have "last ([c] # split_sentences ?r) = last (split_sentences ?r)"
      using split_sentences_nonempty [of ?r] by simp
    with ih \<open>cs \<noteq> []\<close> show ?thesis unfolding eq1 by simp
  next
    case nosplit: False
    obtain p ps where pp: "split_sentences (d # cs) = p # ps"
      by (cases "split_sentences (d # cs)") simp_all
    from 3(2) [OF nosplit] 3(4)
    have ih: "last (split_sentences (d # cs)) \<noteq> [] \<and> last (last (split_sentences (d # cs))) = last (d # cs)"
      by simp
    have eq: "split_sentences (c # d # cs) = (c # p) # ps"
      unfolding split_sentences.simps(3) if_not_P [OF nosplit] pp by simp
    show ?thesis
    proof (cases "ps = []")
      case True
      with pp ih have "p \<noteq> []" "last p = last (d # cs)" by simp_all
      with True show ?thesis unfolding eq by simp
    next
      case False
      with pp ih show ?thesis unfolding eq by simp
    qed
  qed
qed

lemma current_after_sentences:
  "ss \<noteq> [] \<Longrightarrow> \<exists>pre. current_chunk (foldl (add_sentence t ov) st ss) = pre @ 32 # last ss"
proof (induction ss arbitrary: st rule: rev_induct)
  case Nil
  then show ?case by simp
next
  case (snoc x xs)
  show ?case by (simp add: add_sentence_def Let_def)
qed

lemma final_buffer_nonblank:
  assumes "clean_text s \<noteq> []"
  shows "strip (current_chunk (chunk_loop settings (clean_text s))) \<noteq> []"
proof -
  let ?p = "clean_text s"
  let ?t = "chunk_size settings * 4"
  let ?o = "chunk_overlap settings * 4"
  let ?init = "\<lparr>chunks = [], current_chunk = [], flush_log = []\<rparr>"
  have st: "strip ?p = ?p" by (simp add: clean_text_def)
  from assms st have ends: "\<not> is_space (last ?p)" using strip_ends [of ?p] by simp
  have loop: "chunk_loop settings ?p = add_paragraph ?t ?o ?init ?p"
    by (simp add: chunk_loop_def split_paragraphs_clean Let_def)
  have "\<exists>c \<in> set (current_chunk (chunk_loop settings ?p)). \<not> is_space c"
  proof (cases "?t < int (length ?p)")
    case True
    then have a: "chunk_loop settings ?p = foldl (add_sentence ?t ?o) ?init (split_sentences ?p)"
      using assms by (simp add: loop add_paragraph_def st Let_def)
    obtain pre where b:
      "current_chunk (foldl (add_sentence ?t ?o) ?init (split_sentences ?p))
         = pre @ 32 # last (split_sentences ?p)"
      using current_after_sentences [OF split_sentences_nonempty] by blast
    have "last (split_sentences ?p) \<noteq> [] \<and> last (last (split_sentences ?p)) = last ?p"
      using split_sentences_last [OF assms ends] .
    then have "last ?p \<in> set (last (split_sentences ?p))"
      using last_in_set [of "last (split_sentences ?p)"] by simp
    then have "last ?p \<in> set (current_chunk (chunk_loop settings ?p))"
      unfolding a b by simp
    with ends show ?thesis by blast
  next
    case False
    then have c: "current_chunk (chunk_loop settings ?p) = [10, 10] @ ?p"
      using assms by (simp add: loop add_paragraph_def st Let_def)
    have "last ?p \<in> set ?p" using assms by simp
    then have "last ?p \<in> set (current_chunk (chunk_loop settings ?p))"
      unfolding c by simp
    with ends show ?thesis by blast
  qed
  then show ?thesis by (simp add: strip_nonempty)
qed

lemma chunk_text_nonempty:
  assumes "clean_text s \<noteq> []"
  shows "chunk_text settings s \<noteq> []"
  using final_buffer_nonblank [OF assms, of settings] assms by (simp add: chunk_text_def Let_def)




lemma nonspace_dropWhile:
  "(\<exists>c \<in> set (dropWhile is_space s). \<not> is_space c) \<longleftrightarrow> (\<exists>c \<in> set s. \<not> is_space c)"
  by (induction s) auto

lemma nonspace_collapse_ws:
  "(\<exists>c \<in> set (collapse_ws s). \<not> is_space c) \<longleftrightarrow> (\<exists>c \<in> set s. \<not> is_space c)"
proof (induction s rule: collapse_ws.induct)
  case 1
  then show ?case by simp
next
  case (2 c cs)
  show ?case
  proof (cases "is_space c")
    case True
    have "is_space 32" by (simp add: is_space_def)
    with True 2(1) [OF True] nonspace_dropWhile [of cs] show ?thesis by simp
  next
    case False
    then show ?thesis by auto
  qed
qed

lemma clean_text_nonempty: "clean_text s \<noteq> [] \<longleftrightarrow> (\<exists>c \<in> set s. \<not> is_space c)"
  by (simp add: clean_text_def strip_nonempty nonspace_collapse_ws)

text \<open>
  Claim C2. The claim asks for the paragraph split to run on the original text, so
  that paragraph boundaries survive the cleaning. The chunker runs it on the cleaned
  text instead, which has no newline left: for every text the split returns the
  cleaned text as its only paragraph. At the input \<open>a\n\nb\<close> the original text has
  the two paragraphs \<open>a\<close> and \<open>b\<close>, the cleaned text is \<open>a b\<close>, and the chunker
  returns the single chunk \<open>a b\<close>.
\<close>

theorem paragraph_split_on_cleaned_text:
  "split_paragraphs (clean_text text) = [clean_text text]
   \<and> split_paragraphs (u ''a'' @ [10, 10] @ u ''b'') = [u ''a'', u ''b'']
   \<and> clean_text (u ''a'' @ [10, 10] @ u ''b'') = u ''a b''
   \<and> chunk_text default_settings (u ''a'' @ [10, 10] @ u ''b'') = [u ''a b'']"
proof -
  have c: "clean_text (u ''a'' @ [10, 10] @ u ''b'') = u ''a b''"
    by (simp add: clean_text_def strip_def u_def is_space_def)
  have "split_paragraphs (u ''a'' @ [10, 10] @ u ''b'') = [u ''a'', u ''b'']"
    by (simp add: u_def)
  moreover have "chunk_text default_settings (u ''a'' @ [10, 10] @ u ''b'') = [u ''a b'']"
  proof -
    have "u ''a b'' \<noteq> []" by (simp add: u_def)
    then have ne: "clean_text (u ''a'' @ [10, 10] @ u ''b'') \<noteq> []" unfolding c .
    have l: "int (length (u ''a'' @ [10, 10] @ u ''b'')) < chunk_size default_settings * 4"
      by (simp add: u_def default_settings_def)
    show ?thesis using chunk_text_short [OF ne l] by (simp only: c)
  qed
  ultimately show ?thesis using c split_paragraphs_clean by simp
qed




lemma chunk_flushes_inv:
  "chunk_flushes settings s = flush_log (chunk_loop settings (clean_text s))"
proof (cases "clean_text s = []")
  case True
  have "chunk_loop settings [] = \<lparr>chunks = [], current_chunk = [], flush_log = []\<rparr>"
    by (simp add: chunk_loop_def add_paragraph_def strip_def)
  with True show ?thesis by (simp add: chunk_flushes_def)
next
  case False
  then show ?thesis by (simp add: chunk_flushes_def)
qed

lemma chunk_text_prefix:
  "prefix (map (\<lambda>e. strip (fst e)) (chunk_flushes settings s)) (chunk_text settings s)"
proof (cases "clean_text s = []")
  case True
  then show ?thesis by (simp add: chunk_flushes_def chunk_text_def)
next
  case False
  have "chunks (chunk_loop settings (clean_text s))
      = map (\<lambda>e. strip (fst e)) (flush_log (chunk_loop settings (clean_text s)))"
    using flush_inv_chunk_loop [of settings "clean_text s"] by (simp add: flush_inv_def)
  with False show ?thesis by (simp add: chunk_flushes_def chunk_text_def Let_def)
qed

lemma chunk_text_final:
  assumes "clean_text s \<noteq> []"
  shows "chunk_text settings s
           = map (\<lambda>e. strip (fst e)) (chunk_flushes settings s)
             @ [strip (current_chunk (chunk_loop settings (clean_text s)))]"
proof -
  have "chunks (chunk_loop settings (clean_text s))
      = map (\<lambda>e. strip (fst e)) (flush_log (chunk_loop settings (clean_text s)))"
    using flush_inv_chunk_loop [of settings "clean_text s"] by (simp add: flush_inv_def)
  with assms final_buffer_nonblank [OF assms, of settings] show ?thesis
    by (simp add: chunk_flushes_def chunk_text_def Let_def)
qed

lemma link_inv_flush: "link_inv st \<Longrightarrow> link_inv (flush ov st)"
proof -
  assume inv: "link_inv st"
  let ?log = "flush_log st"
  let ?e = "(current_chunk st, reseed ov (current_chunk st))"
  have log: "flush_log (flush ov st) = ?log @ [?e]"
    and cur: "current_chunk (flush ov st) = reseed ov (current_chunk st)"
    by (simp_all add: flush_def Let_def)
  have "prefix (snd ((?log @ [?e]) ! i)) (fst ((?log @ [?e]) ! Suc i))"
    if i: "Suc i < length (?log @ [?e])" for i
  proof (cases "Suc i < length ?log")
    case True
    with inv show ?thesis by (simp add: link_inv_def nth_append)
  next
    case False
    with i have eq: "Suc i = length ?log" by simp
    then have ne: "?log \<noteq> []" by auto
    from eq have ii: "i = length ?log - 1" by simp
    have "(?log @ [?e]) ! i = last ?log"
      unfolding ii using ne by (simp add: nth_append last_conv_nth)
    moreover from eq have "(?log @ [?e]) ! Suc i = ?e" by simp
    ultimately show ?thesis using inv ne by (simp add: link_inv_def)
  qed
  then show ?thesis unfolding link_inv_def log cur by simp
qed

lemma link_inv_append:
  "link_inv st \<Longrightarrow> link_inv (st\<lparr>current_chunk := current_chunk st @ x\<rparr>)"
  by (simp add: link_inv_def)

lemma link_inv_add_sentence: "link_inv st \<Longrightarrow> link_inv (add_sentence t ov st s)"
  unfolding add_sentence_def Let_def
  by (rule link_inv_append) (simp add: link_inv_flush)

lemma link_inv_sentences: "link_inv st \<Longrightarrow> link_inv (foldl (add_sentence t ov) st ss)"
  by (induction ss arbitrary: st) (simp_all add: link_inv_add_sentence)

lemma link_inv_add_paragraph: "link_inv st \<Longrightarrow> link_inv (add_paragraph t ov st p)"
proof -
  assume inv: "link_inv st"
  have "link_inv ((if c then flush ov st else st)
          \<lparr>current_chunk := current_chunk (if c then flush ov st else st) @ x\<rparr>)" for c x
    by (rule link_inv_append) (simp add: inv link_inv_flush)
  with inv show ?thesis
    by (simp add: add_paragraph_def Let_def link_inv_sentences)
qed

lemma link_inv_paragraphs: "link_inv st \<Longrightarrow> link_inv (foldl (add_paragraph t ov) st ps)"
  by (induction ps arbitrary: st) (simp_all add: link_inv_add_paragraph)

lemma link_inv_chunk_loop: "link_inv (chunk_loop settings s)"
  unfolding chunk_loop_def Let_def
  by (rule link_inv_paragraphs) (simp add: link_inv_def)

lemma flush_effect:
  "chunks (flush ov st) = chunks st @ [strip (current_chunk st)]
   \<and> current_chunk (flush ov st) = reseed ov (current_chunk st)"
  by (simp add: flush_def Let_def)

text \<open>
  Claim C4. The flushed chunk is the buffer at the moment of a flush; it is trimmed
  when it is emitted. A flush appends the trimmed buffer to the chunks and, with a
  non-negative overlap setting, leaves as the buffer exactly the trailing
  \<open>chunk_overlap * 4\<close> characters of the buffer it flushed (all of it when it is
  shorter, nothing when the overlap is 0). For every flush of a run: the buffer it
  left is that trailing part, a suffix of the flushed buffer and never longer than it,
  its trimmed form is a suffix of the emitted chunk, and the next flushed buffer, or
  the final buffer after the last flush, starts with it. The result of the run is the
  trimmed flushed buffers in order followed by the trimmed final buffer, so the chunk
  after a flush is the trimmed buffer that grew from the reseeded overlap. Every text
  that is not blank, so also a single paragraph larger than the overlap window,
  produces at least one chunk.
\<close>

theorem flush_reseeds_trailing_overlap:
  "(\<forall>st. chunks (flush (chunk_overlap settings * 4) st) = chunks st @ [strip (current_chunk st)]
         \<and> (0 \<le> chunk_overlap settings \<longrightarrow>
              current_chunk (flush (chunk_overlap settings * 4) st)
                = (if chunk_overlap settings * 4 = 0 then []
                   else drop (length (current_chunk st) - nat (chunk_overlap settings * 4))
                          (current_chunk st))))
   \<and> (0 \<le> chunk_overlap settings \<longrightarrow>
      (\<forall>e \<in> set (chunk_flushes settings text).
         snd e = (if chunk_overlap settings * 4 = 0 then []
                  else drop (length (fst e) - nat (chunk_overlap settings * 4)) (fst e))
         \<and> length (snd e) = min (nat (chunk_overlap settings * 4)) (length (fst e))))
   \<and> (\<forall>e \<in> set (chunk_flushes settings text).
         fst e \<noteq> [] \<and> suffix (snd e) (fst e) \<and> length (snd e) \<le> length (fst e)
         \<and> suffix (strip (snd e)) (strip (fst e))
         \<and> strip (fst e) \<in> set (chunk_text settings text))
   \<and> prefix (map (\<lambda>e. strip (fst e)) (chunk_flushes settings text)) (chunk_text settings text)
   \<and> (\<forall>i. Suc i < length (chunk_flushes settings text)
        \<longrightarrow> prefix (snd (chunk_flushes settings text ! i)) (fst (chunk_flushes settings text ! Suc i)))
   \<and> (chunk_flushes settings text \<noteq> []
        \<longrightarrow> prefix (snd (last (chunk_flushes settings text)))
              (current_chunk (chunk_loop settings (clean_text text))))
   \<and> (clean_text text \<noteq> []
        \<longrightarrow> chunk_text settings text
            = map (\<lambda>e. strip (fst e)) (chunk_flushes settings text)
              @ [strip (current_chunk (chunk_loop settings (clean_text text)))])
   \<and> (\<forall>i < length (chunk_flushes settings text).
         chunk_text settings text ! i = strip (fst (chunk_flushes settings text ! i))
         \<and> (\<exists>rest. chunk_text settings text ! Suc i
                     = strip (snd (chunk_flushes settings text ! i) @ rest)))
   \<and> (clean_text text \<noteq> [] \<longrightarrow> chunk_text settings text \<noteq> [])"
proof -
  let ?ov = "chunk_overlap settings * 4"
  let ?log = "chunk_flushes settings text"
  let ?final = "current_chunk (chunk_loop settings (clean_text text))"
  have inv: "\<forall>e \<in> set ?log. snd e = reseed ?ov (fst e) \<and> fst e \<noteq> []"
    using flush_inv_chunk_loop [of settings "clean_text text"]
    by (simp add: chunk_flushes_inv flush_inv_def)
  have link: "link_inv (chunk_loop settings (clean_text text))"
    by (rule link_inv_chunk_loop)
  have p: "prefix (map (\<lambda>e. strip (fst e)) ?log) (chunk_text settings text)"
    by (rule chunk_text_prefix)
  have step: "\<forall>st. chunks (flush ?ov st) = chunks st @ [strip (current_chunk st)]
         \<and> (0 \<le> chunk_overlap settings \<longrightarrow>
              current_chunk (flush ?ov st)
                = (if ?ov = 0 then []
                   else drop (length (current_chunk st) - nat ?ov) (current_chunk st)))"
  proof (intro allI conjI impI)
    fix st
    show "chunks (flush ?ov st) = chunks st @ [strip (current_chunk st)]"
      using flush_effect by blast
    assume "0 \<le> chunk_overlap settings"
    then have nn4: "0 \<le> ?ov" by simp
    show "current_chunk (flush ?ov st)
                = (if ?ov = 0 then []
                   else drop (length (current_chunk st) - nat ?ov) (current_chunk st))"
      using flush_effect [of ?ov st] reseed_trailing [OF nn4, of "current_chunk st"] by simp
  qed
  have a: "0 \<le> chunk_overlap settings \<longrightarrow>
      (\<forall>e \<in> set ?log.
         snd e = (if ?ov = 0 then [] else drop (length (fst e) - nat ?ov) (fst e))
         \<and> length (snd e) = min (nat ?ov) (length (fst e)))"
  proof (intro impI ballI)
    fix e assume nn: "0 \<le> chunk_overlap settings" and e: "e \<in> set ?log"
    then have nn4: "0 \<le> ?ov" by simp
    from inv e have r: "snd e = reseed ?ov (fst e)" by blast
    show "snd e = (if ?ov = 0 then [] else drop (length (fst e) - nat ?ov) (fst e))
         \<and> length (snd e) = min (nat ?ov) (length (fst e))"
      unfolding r using reseed_trailing [OF nn4] reseed_length [OF nn4] by simp
  qed
  have b: "\<forall>e \<in> set ?log.
         fst e \<noteq> [] \<and> suffix (snd e) (fst e) \<and> length (snd e) \<le> length (fst e)
         \<and> suffix (strip (snd e)) (strip (fst e))
         \<and> strip (fst e) \<in> set (chunk_text settings text)"
  proof
    fix e assume e: "e \<in> set ?log"
    from inv e have r: "snd e = reseed ?ov (fst e)" and ne: "fst e \<noteq> []" by blast+
    have s: "suffix (snd e) (fst e)" unfolding r by (rule reseed_suffix)
    then have l: "length (snd e) \<le> length (fst e)" by (rule suffix_length_le)
    have ss: "suffix (strip (snd e)) (strip (fst e))" using s by (rule suffix_strip_mono)
    from e have "strip (fst e) \<in> set (map (\<lambda>e. strip (fst e)) ?log)"
      by simp
    then have "strip (fst e) \<in> set (chunk_text settings text)"
      using p set_mono_prefix by blast
    with ne s l ss show "fst e \<noteq> [] \<and> suffix (snd e) (fst e) \<and> length (snd e) \<le> length (fst e)
         \<and> suffix (strip (snd e)) (strip (fst e))
         \<and> strip (fst e) \<in> set (chunk_text settings text)" by simp
  qed
  have l1: "\<forall>i. Suc i < length ?log \<longrightarrow> prefix (snd (?log ! i)) (fst (?log ! Suc i))"
    using link unfolding link_inv_def chunk_flushes_inv by blast
  have l2: "?log \<noteq> [] \<longrightarrow> prefix (snd (last ?log)) ?final"
    using link unfolding link_inv_def chunk_flushes_inv by blast
  have fin: "clean_text text \<noteq> [] \<longrightarrow> chunk_text settings text
            = map (\<lambda>e. strip (fst e)) ?log @ [strip ?final]"
    using chunk_text_final by blast
  have nonblank: "?log \<noteq> [] \<Longrightarrow> clean_text text \<noteq> []"
    by (auto simp: chunk_flushes_def)
  have nxt: "\<forall>i < length ?log.
         chunk_text settings text ! i = strip (fst (?log ! i))
         \<and> (\<exists>rest. chunk_text settings text ! Suc i = strip (snd (?log ! i) @ rest))"
  proof (intro allI impI conjI)
    fix i assume i: "i < length ?log"
    then have ne: "?log \<noteq> []" by auto
    then have eq: "chunk_text settings text = map (\<lambda>e. strip (fst e)) ?log @ [strip ?final]"
      using fin nonblank by blast
    show "chunk_text settings text ! i = strip (fst (?log ! i))"
      unfolding eq using i by (simp add: nth_append)
    show "\<exists>rest. chunk_text settings text ! Suc i = strip (snd (?log ! i) @ rest)"
    proof (cases "Suc i < length ?log")
      case True
      with l1 obtain rest where "fst (?log ! Suc i) = snd (?log ! i) @ rest"
        by (auto simp: prefix_def)
      moreover have "chunk_text settings text ! Suc i = strip (fst (?log ! Suc i))"
        unfolding eq using True by (simp add: nth_append)
      ultimately show ?thesis by auto
    next
      case False
      with i have si: "Suc i = length ?log" by simp
      then have ii: "i = length ?log - 1" by simp
      have "?log ! i = last ?log" unfolding ii using ne by (simp add: last_conv_nth)
      with l2 ne obtain rest where "?final = snd (?log ! i) @ rest"
        by (auto simp: prefix_def)
      moreover have "chunk_text settings text ! Suc i = strip ?final"
        unfolding eq using si by (simp add: nth_append)
      ultimately show ?thesis by auto
    qed
  qed
  have c: "clean_text text \<noteq> [] \<longrightarrow> chunk_text settings text \<noteq> []"
    using chunk_text_nonempty by blast
  show ?thesis
    by (intro conjI) (fact step a b p l1 l2 fin nxt c)+
qed

lemma example_flush_run:
  "chunk_flushes \<lparr>chunk_size = 1, chunk_overlap = 1\<rparr> (u ''abcde. fg. hijkl.'')
     = [(u '' abcde.'', u ''cde.''), (u ''cde. fg.'', u '' fg.'')]
   \<and> chunk_text \<lparr>chunk_size = 1, chunk_overlap = 1\<rparr> (u ''abcde. fg. hijkl.'')
     = [u ''abcde.'', u ''cde. fg.'', u ''fg. hijkl.'']
   \<and> current_chunk (chunk_loop \<lparr>chunk_size = 1, chunk_overlap = 1\<rparr>
        (clean_text (u ''abcde. fg. hijkl.''))) = u '' fg. hijkl.''"
  by (simp add: chunk_flushes_def chunk_text_def clean_text_def chunk_loop_def add_paragraph_def
      add_sentence_def flush_def reseed_def slice_from_def strip_def u_def is_space_def
      is_sentence_end_def Let_def)

theorem flush_reseeds_trailing_overlap_witness:
  "(0::int) \<le> chunk_overlap \<lparr>chunk_size = 1, chunk_overlap = 1\<rparr>
   \<and> chunk_flushes \<lparr>chunk_size = 1, chunk_overlap = 1\<rparr> (u ''abcde. fg. hijkl.'')
       = [(u '' abcde.'', u ''cde.''), (u ''cde. fg.'', u '' fg.'')]
   \<and> u ''cde.'' = drop (length (u '' abcde.'') - 4) (u '' abcde.'')
   \<and> u '' fg.'' = drop (length (u ''cde. fg.'') - 4) (u ''cde. fg.'')
   \<and> prefix (u ''cde.'') (u ''cde. fg.'')
   \<and> prefix (u '' fg.'') (u '' fg. hijkl.'')
   \<and> suffix (strip (u ''cde.'')) (strip (u '' abcde.''))
   \<and> suffix (strip (u '' fg.'')) (strip (u ''cde. fg.''))
   \<and> chunk_text \<lparr>chunk_size = 1, chunk_overlap = 1\<rparr> (u ''abcde. fg. hijkl.'')
       = [u ''abcde.'', u ''cde. fg.'', u ''fg. hijkl.'']
   \<and> current_chunk (flush 4 \<lparr>chunks = [], current_chunk = u '' abcde.'', flush_log = []\<rparr>) = u ''cde.''
   \<and> chunks (flush 4 \<lparr>chunks = [], current_chunk = u '' abcde.'', flush_log = []\<rparr>) = [u ''abcde.'']"
  using flush_reseeds_trailing_overlap
      [of "\<lparr>chunk_size = 1, chunk_overlap = 1\<rparr>" "u ''abcde. fg. hijkl.''"]
    example_flush_run
  by (simp add: u_def strip_def is_space_def flush_def reseed_def slice_from_def Let_def)

section \<open>Properties of the ingestion service\<close>

lemma sanitize_chars: "c \<in> set (sanitize s) \<Longrightarrow> is_alnum_ascii c \<or> c = 95"
  by (auto simp: sanitize_def)

lemma safe_filename_chars: "c \<in> set (safe_filename f) \<Longrightarrow> is_alnum_ascii c \<or> c = 95"
  unfolding safe_filename_def using sanitize_chars in_set_takeD by fastforce

lemma document_id_eq_iff:
  assumes "length (content_hash h c) = length (content_hash h c')"
  shows "generate_document_id h f c = generate_document_id h f' c'
         \<longleftrightarrow> safe_filename f = safe_filename f' \<and> content_hash h c = content_hash h c'"
proof
  assume eq: "generate_document_id h f c = generate_document_id h f' c'"
  then have "length (safe_filename f @ u ''_'' @ content_hash h c)
           = length (safe_filename f' @ u ''_'' @ content_hash h c')"
    by (simp add: generate_document_id_def)
  with assms have "length (safe_filename f) = length (safe_filename f')" by simp
  with eq show "safe_filename f = safe_filename f' \<and> content_hash h c = content_hash h c'"
    by (simp add: generate_document_id_def)
next
  assume "safe_filename f = safe_filename f' \<and> content_hash h c = content_hash h c'"
  then show "generate_document_id h f c = generate_document_id h f' c'"
    by (simp add: generate_document_id_def)
qed

text \<open>
  Claim C5 as stated fails: the file names \<open>a.txt\<close> and \<open>a.pdf\<close> differ, but both have
  the prefix \<open>a\<close>, so changing the file name need not change the prefix.
\<close>

theorem document_id_prefix_counterexample:
  "u ''a.txt'' \<noteq> u ''a.pdf''
   \<and> safe_filename (u ''a.txt'') = u ''a''
   \<and> safe_filename (u ''a.pdf'') = u ''a''
   \<and> safe_filename (u ''a.txt'') = safe_filename (u ''a.pdf'')"
  by (simp add: safe_filename_def sanitize_def is_alnum_ascii_def path_stem_def path_name_def
      rfind_def u_def)

text \<open>
  Claim C5, amended. For every digest function giving 32 characters, the id is
  \<open>sanitize(stem(filename))[:20]\<close>, an underscore, and the first 8 characters of the
  digest of the content; the prefix has only ASCII letters, digits and underscores and
  at most 20 characters; the prefix is a function of the file name alone and the suffix
  of the content alone, and two ids are equal exactly when their prefixes are equal and
  their suffixes are equal. So a change of the file name leaves the suffix as it is and
  changes the id exactly when it changes the sanitised, truncated stem; a change of the
  content leaves the prefix as it is and changes the id exactly when it changes the
  first 8 digest characters.
\<close>

theorem generate_document_id_parts:
  assumes "\<forall>c. length (h c) = 32"
  shows "generate_document_id h filename contents
           = take 20 (sanitize (path_stem filename)) @ u ''_'' @ take 8 (h contents)
         \<and> (\<forall>c \<in> set (safe_filename filename). is_alnum_ascii c \<or> c = 95)
         \<and> length (safe_filename filename) \<le> 20
         \<and> length (content_hash h contents) = 8
         \<and> (generate_document_id h filename contents = generate_document_id h filename' contents'
              \<longleftrightarrow> safe_filename filename = safe_filename filename'
                  \<and> content_hash h contents = content_hash h contents')"
proof -
  have l: "length (content_hash h x) = 8" for x using assms by (simp add: content_hash_def)
  have "generate_document_id h filename contents = generate_document_id h filename' contents'
              \<longleftrightarrow> safe_filename filename = safe_filename filename'
                  \<and> content_hash h contents = content_hash h contents'"
    by (rule document_id_eq_iff) (simp add: l)
  moreover have "\<forall>c \<in> set (safe_filename filename). is_alnum_ascii c \<or> c = 95"
    using safe_filename_chars by blast
  moreover have "length (safe_filename filename) \<le> 20" by (simp add: safe_filename_def)
  moreover have "generate_document_id h filename contents
           = take 20 (sanitize (path_stem filename)) @ u ''_'' @ take 8 (h contents)"
    by (simp add: generate_document_id_def safe_filename_def content_hash_def)
  ultimately show ?thesis using l by blast
qed

lemma toy_digest_length: "\<forall>c. length (toy_digest c) = 32"
  by (simp add: toy_digest_def min_def)

theorem generate_document_id_parts_witness:
  "(\<forall>c. length (toy_digest c) = 32)
   \<and> generate_document_id toy_digest (u ''my document.pdf'') (u ''content'')
       = u ''my_document_91061060''
   \<and> generate_document_id toy_digest (u ''my document.pdf'') (u ''content'')
       = generate_document_id toy_digest (u ''my_document.txt'') (u ''content'')
   \<and> generate_document_id toy_digest (u ''my document.pdf'') (u ''content'')
       \<noteq> generate_document_id toy_digest (u ''my document.pdf'') (u ''Content'')"
proof -
  have s1: "safe_filename (u ''my document.pdf'') = u ''my_document''"
    by (simp add: safe_filename_def sanitize_def is_alnum_ascii_def path_stem_def path_name_def
      rfind_def u_def)
  have s2: "safe_filename (u ''my_document.txt'') = u ''my_document''"
    by (simp add: safe_filename_def sanitize_def is_alnum_ascii_def path_stem_def path_name_def
      rfind_def u_def)
  have h1: "content_hash toy_digest (u ''content'') = u ''91061060''"
    by (simp add: content_hash_def toy_digest_def u_def)
  have h2: "content_hash toy_digest (u ''Content'') = u ''71061060''"
    by (simp add: content_hash_def toy_digest_def u_def)
  have ne: "u ''91061060'' \<noteq> u ''71061060''" by (simp add: u_def)
  note t = generate_document_id_parts [OF toy_digest_length, THEN conjunct2, THEN conjunct2,
      THEN conjunct2, THEN conjunct2]
  have a: "generate_document_id toy_digest (u ''my document.pdf'') (u ''content'')
       = generate_document_id toy_digest (u ''my_document.txt'') (u ''content'')"
    using t [of "u ''my document.pdf''" "u ''content''" "u ''my_document.txt''" "u ''content''"]
      s1 s2 by simp
  have b: "generate_document_id toy_digest (u ''my document.pdf'') (u ''content'')
       \<noteq> generate_document_id toy_digest (u ''my document.pdf'') (u ''Content'')"
    using t [of "u ''my document.pdf''" "u ''content''" "u ''my document.pdf''" "u ''Content''"]
      h1 h2 ne by simp
  have c: "generate_document_id toy_digest (u ''my document.pdf'') (u ''content'')
       = u ''my_document_91061060''"
    by (simp add: generate_document_id_def s1 h1) (simp add: u_def)
  from a b c toy_digest_length show ?thesis by simp
qed

lemma ingest_document_undecodable:
  assumes "lower (path_suffix filename) = u ''.txt''" and "utf8_decode file = None"
  shows "ingest_document cfg svc file filename file_size st = (Inl UnicodeDecodeError, st)"
proof -
  have "u ''.txt'' \<noteq> u ''.pdf''" by (simp add: u_def)
  then have "extract_text (pdf_pages svc) file filename = Inl UnicodeDecodeError"
    using assms by (simp add: extract_text_def extract_txt_def)
  then show ?thesis by (simp add: ingest_document_def)
qed

lemma suffix_a_txt: "lower (path_suffix (u ''a.txt'')) = u ''.txt''"
  by (simp add: lower_def path_suffix_def path_name_def rfind_def u_def)

text \<open>
  Claim C10 as stated fails in its conclusion: the one-byte file \<open>0xFF\<close> named
  \<open>a.txt\<close> makes the ingestion raise \<open>UnicodeDecodeError\<close>, and the upload endpoint
  answers it with status 400, the status of a rejected request, as it answers the
  errors of the taxonomy.
\<close>

theorem undecodable_txt_counterexample:
  "fst (ingest_document default_settings example_services [0xFF] (u ''a.txt'') 1 empty_storage)
     = Inl UnicodeDecodeError
   \<and> upload_status
       (fst (ingest_document default_settings example_services [0xFF] (u ''a.txt'') 1 empty_storage))
     = 400
   \<and> upload_status (Inl empty_content :: exn + nat document_info) = 400"
proof -
  have "utf8_decode [0xFF] = None" by simp
  from ingest_document_undecodable [OF suffix_a_txt this,
      of default_settings example_services 1 empty_storage]
  show ?thesis by (simp add: upload_status_def empty_content_def)
qed

text \<open>
  Claim C10, amended. For every file with the extension \<open>.txt\<close> (in any case) whose
  bytes are not valid UTF-8, the extraction fails with \<open>UnicodeDecodeError\<close>, the
  ingestion raises it and changes nothing, and the error is none of the three errors
  of the taxonomy; it is a \<open>ValueError\<close> all the same, so the upload endpoint reports
  it as a rejected request (status 400).
\<close>

theorem undecodable_txt_is_value_error:
  assumes "lower (path_suffix filename) = u ''.txt''" and "utf8_decode file = None"
  shows "extract_text pdf file filename = Inl UnicodeDecodeError
         \<and> ingest_document cfg svc file filename file_size st = (Inl UnicodeDecodeError, st)
         \<and> UnicodeDecodeError \<noteq> unsupported_file_type file_ext
         \<and> UnicodeDecodeError \<noteq> empty_content
         \<and> UnicodeDecodeError \<noteq> chunking_failed
         \<and> is_value_error UnicodeDecodeError
         \<and> upload_status (fst (ingest_document cfg svc file filename file_size st)) = 400"
proof -
  have "u ''.txt'' \<noteq> u ''.pdf''" by (simp add: u_def)
  then have "extract_text pdf file filename = Inl UnicodeDecodeError"
    using assms by (simp add: extract_text_def extract_txt_def)
  moreover note ingest_document_undecodable [OF assms, of cfg svc file_size st]
  ultimately show ?thesis
    by (simp add: unsupported_file_type_def empty_content_def chunking_failed_def upload_status_def)
qed

theorem undecodable_txt_is_value_error_witness:
  "lower (path_suffix (u ''a.txt'')) = u ''.txt''
   \<and> utf8_decode [0xFF] = None
   \<and> ingest_document default_settings example_services [0xFF] (u ''a.txt'') 1 empty_storage
       = (Inl UnicodeDecodeError, empty_storage)"
proof -
  have d: "utf8_decode [0xFF] = None" by simp
  from undecodable_txt_is_value_error [OF suffix_a_txt d,
      of "pdf_pages example_services" default_settings example_services 1 empty_storage]
    suffix_a_txt d
  show ?thesis by simp
qed

end
